theory Spec2Isabelle
  imports Complex_Main "HOL-Library.AList" "HOL-Library.Log_Nat"
begin

section \<open>Double-precision arithmetic\<close>

text \<open>
  A JavaScript number that carries a measurement is an IEEE 754 double. The finite doubles
  are modelled as the real numbers they denote, and an arithmetic operation of the source
  as the exact operation on the reals followed by \<open>round_double\<close>, the rounding to the
  nearest double with ties to the even significand. A double has a significand of 53 bits;
  below \<open>2^-1022\<close> the doubles are the multiples of \<open>2^-1074\<close>. NaN and the infinities have no
  counterpart: a result of magnitude \<open>2^1024\<close> or more, which is an infinity in the source,
  keeps its rounded value here, so the model is the source as long as no operation
  overflows. A value that the source would read as \<open>undefined\<close> (and then turn into NaN)
  is \<open>None\<close>. Timestamps are integers (Unix milliseconds), counters are natural numbers.
\<close>

text \<open>Rounding to the nearest integer, a tie to the even one.\<close>

definition round_half_even :: "real \<Rightarrow> int" where
  "round_half_even x =
    (let f = \<lfloor>x\<rfloor>; d = x - of_int f
     in if d < 1 / 2 then f
        else if d > 1 / 2 then f + 1
        else if even f then f else f + 1)"

text \<open>
  For \<open>x > 0\<close>, the exponent \<open>e\<close> with \<open>2^e \<le> x < 2^(e+1)\<close>, computed from the number of
  bits of an integer next to \<open>x\<close> or to \<open>1/x\<close>.
\<close>

definition binade :: "real \<Rightarrow> int" where
  "binade x = (if 1 \<le> x then bitlen \<lfloor>x\<rfloor> - 1 else - bitlen (\<lceil>1 / x\<rceil> - 1))"

text \<open>
  The distance between neighbouring doubles around \<open>x\<close>: \<open>2^(e-52)\<close> in the binade of
  exponent \<open>e\<close>, and \<open>2^-1074\<close> below \<open>2^-1022\<close>.
\<close>

definition ulp_of :: "real \<Rightarrow> real" where
  "ulp_of x = 2 powi (max (binade \<bar>x\<bar>) (- 1022) - 52)"

definition round_double :: "real \<Rightarrow> real" where
  "round_double x =
    (if x = 0 then 0
     else sgn x * of_int (round_half_even (\<bar>x\<bar> / ulp_of x)) * ulp_of x)"

section \<open>Data model (core/types)\<close>

datatype MetricType =
  Latency | ErrorCount | ReadCount | WriteCount | CommitCount | StageInvocation | Custom

datatype meta_value = MString string | MPath "string list" | MUndefined

text \<open>The field \<open>value\<close> of the source is \<open>val\<close> here.\<close>

record MetricEntry =
  stageName :: string
  metric :: MetricType
  val :: real
  timestamp :: int
  metadata :: "(string \<times> meta_value) list option"

text \<open>The fields \<open>min\<close> and \<open>max\<close> of the source are \<open>pr_min\<close> and \<open>pr_max\<close>.\<close>

record PercentileResult =
  pr_min :: real
  pr_max :: real
  p50 :: real
  p95 :: real
  p99 :: real
  mean :: real
  count :: nat

section \<open>Percentile calculation (strategies/percentile)\<close>

text \<open>An array read \<open>xs[i]\<close>: \<open>undefined\<close> outside \<open>0 .. length - 1\<close>.\<close>

definition js_at :: "'a list \<Rightarrow> int \<Rightarrow> 'a option" where
  "js_at xs i = (if 0 \<le> i \<and> i < int (length xs) then Some (xs ! nat i) else None)"

text \<open>
  \<open>percentile(sorted, p)\<close>; the parameter \<open>sorted\<close> is \<open>xs\<close>. Every operation on
  numbers is rounded; \<open>sorted.length - 1\<close> is an integer below \<open>2^32\<close> and exact. The result
  \<open>None\<close> stands for \<open>undefined\<close> or NaN, which the source yields when a rank falls
  outside the array.
\<close>

definition percentile :: "real list \<Rightarrow> real \<Rightarrow> real option" where
  "percentile xs p =
    (if length xs = 0 then Some 0
     else if length xs = 1 then js_at xs 0
     else
       let index = round_double (round_double (p / 100) * of_nat (length xs - 1));
           lower = \<lfloor>index\<rfloor>;
           upper = \<lceil>index\<rceil>
       in if lower = upper then js_at xs lower
          else
            let weight = round_double (index - of_int lower)
            in (case (js_at xs lower, js_at xs upper) of
                  (Some a, Some b) \<Rightarrow>
                    Some (round_double (round_double (a * round_double (1 - weight))
                                        + round_double (b * weight)))
                | _ \<Rightarrow> None))"

definition zero_percentiles :: PercentileResult where
  "zero_percentiles =
     \<lparr>pr_min = 0, pr_max = 0, p50 = 0, p95 = 0, p99 = 0, mean = 0, count = 0\<rparr>"

text \<open>
  \<open>computePercentiles(entries, metric)\<close>. The comparator \<open>a - b\<close> of the sort has the sign
  of the exact difference, so the sort is ascending. The three percentiles are read with
  \<open>the\<close>; lemma \<open>percentile_defined\<close> shows that they are never \<open>None\<close> for an array,
  which has fewer than \<open>2^32\<close> elements.
\<close>

definition computePercentiles :: "MetricEntry list \<Rightarrow> MetricType \<Rightarrow> PercentileResult" where
  "computePercentiles entries m =
    (let values = sort (map val (filter (\<lambda>e. metric e = m) entries))
     in if length values = 0 then zero_percentiles
        else
          let sum = foldl (\<lambda>acc v. round_double (acc + v)) 0 values
          in \<lparr>pr_min = values ! 0,
              pr_max = values ! (length values - 1),
              p50 = the (percentile values 50),
              p95 = the (percentile values 95),
              p99 = the (percentile values 99),
              mean = round_double (sum / of_nat (length values)),
              count = length values\<rparr>)"

text \<open>
  The spec's wording of the interpolation, in double arithmetic: with the fractional rank
  \<open>idx = p/100 * (n-1)\<close>, the element at that rank when it is an integer, and otherwise
  the value between the elements at ranks \<open>floor idx\<close> and \<open>ceil idx\<close>, weighted by the
  distance of \<open>idx\<close> from \<open>floor idx\<close>.
\<close>

definition double_rank :: "real list \<Rightarrow> real \<Rightarrow> real" where
  "double_rank xs p = round_double (round_double (p / 100) * of_nat (length xs - 1))"


text \<open>
  \<open>computeStagePercentiles(entries, metric)\<close>. A JavaScript \<open>Map\<close> is an
  association list in insertion order; \<open>AList.update\<close> replaces the value of a key
  that is present and appends a new key at the end, as \<open>Map.set\<close> does.
\<close>

definition computeStagePercentiles ::
  "MetricEntry list \<Rightarrow> MetricType \<Rightarrow> (string \<times> PercentileResult) list" where
  "computeStagePercentiles entries m =
    (let byStage =
           foldl (\<lambda>byStage entry.
                    if metric entry \<noteq> m then byStage
                    else
                      let existing = (case map_of byStage (stageName entry) of
                                        Some es \<Rightarrow> es | None \<Rightarrow> [])
                      in AList.update (stageName entry) (existing @ [entry]) byStage)
             [] entries
     in map (\<lambda>(stage, stageEntries). (stage, computePercentiles stageEntries m)) byStage)"

definition computeStageErrors :: "MetricEntry list \<Rightarrow> (string \<times> real) list" where
  "computeStageErrors entries =
    foldl (\<lambda>errors entry.
             if metric entry \<noteq> ErrorCount then errors
             else
               let current = (case map_of errors (stageName entry) of
                                Some c \<Rightarrow> c | None \<Rightarrow> 0)
               in AList.update (stageName entry) (round_double (current + val entry)) errors)
      [] entries"

section \<open>Shared result types (core/types)\<close>

datatype js_error = RangeError | TypeError

datatype StrategyType = RingBuffer | Tumbling | Sliding

text \<open>
  \<open>WindowSnapshot\<close>, fields prefixed \<open>ws_\<close>. The entry type is a parameter: the
  ring buffer hands out the slots it read, which may be \<open>undefined\<close>.
\<close>

record 'e WindowSnapshot =
  ws_entries :: "'e list"
  ws_startTime :: int
  ws_endTime :: int
  ws_size :: nat
  ws_totalPushed :: nat
  ws_totalEvicted :: nat

record WindowInfo =
  wi_type :: StrategyType
  wi_startTime :: int
  wi_endTime :: int
  entryCount :: nat

record MetricResult =
  latencyPercentiles :: PercentileResult
  stagePercentiles :: "(string \<times> PercentileResult) list"
  totalErrors :: real
  stageErrors :: "(string \<times> real) list"
  totalInvocations :: nat
  windowInfo :: WindowInfo
  computedAt :: int

datatype WindowConfig = RingBufferConfig nat | TumblingConfig int | SlidingConfig int

section \<open>RingBufferStrategy\<close>

text \<open>
  \<open>new Array(len)\<close> throws a RangeError unless \<open>len\<close> is an integer in
  \<open>0 .. 2^32 - 1\<close>; otherwise it is an array of \<open>len\<close> empty slots.
\<close>

definition new_Array :: "int \<Rightarrow> js_error + 'a option list" where
  "new_Array len =
    (if 0 \<le> len \<and> len < 2 ^ 32 then Inr (replicate (nat len) None) else Inl RangeError)"

text \<open>An array write \<open>xs[i] = v\<close>: past the end, the array grows with empty slots.\<close>

definition js_store :: "'a option list \<Rightarrow> nat \<Rightarrow> 'a \<Rightarrow> 'a option list" where
  "js_store xs i v =
    (if i < length xs then xs[i := Some v]
     else xs @ replicate (i - length xs) None @ [Some v])"

text \<open>
  The fields of the class, prefixed \<open>rb_\<close>. The cursor \<open>head\<close> is \<open>None\<close> when
  it is NaN, which \<open>% maxSize\<close> yields for \<open>maxSize = 0\<close>.
\<close>

record RingBufferStrategy =
  rb_buffer :: "MetricEntry option list"
  rb_head :: "nat option"
  rb_size :: nat
  rb_maxSize :: nat
  rb_totalPushed :: nat
  rb_totalEvicted :: nat

text \<open>
  The constructor; its argument is \<open>config?.maxSize\<close>. It validates nothing itself:
  the only failure is the RangeError of the array allocation.
\<close>

definition RingBufferStrategy_new :: "int option \<Rightarrow> js_error + RingBufferStrategy" where
  "RingBufferStrategy_new config_maxSize =
    (let maxSize = (case config_maxSize of Some n \<Rightarrow> n | None \<Rightarrow> 1000)
     in case new_Array maxSize of
          Inl e \<Rightarrow> Inl e
        | Inr arr \<Rightarrow>
            Inr \<lparr>rb_buffer = arr, rb_head = Some 0, rb_size = 0, rb_maxSize = nat maxSize,
                 rb_totalPushed = 0, rb_totalEvicted = 0\<rparr>)"

text \<open>
  \<open>push(entry)\<close>. A write at the index NaN sets a property of that name and leaves the
  array's slots alone.
\<close>

definition RingBufferStrategy_push :: "RingBufferStrategy \<Rightarrow> MetricEntry \<Rightarrow> RingBufferStrategy" where
  "RingBufferStrategy_push s entry =
    (let s1 = s\<lparr>rb_buffer := (case rb_head s of
                                 Some h \<Rightarrow> js_store (rb_buffer s) h entry
                               | None \<Rightarrow> rb_buffer s)\<rparr>;
         s2 = s1\<lparr>rb_head := (case rb_head s1 of
                                Some h \<Rightarrow> if rb_maxSize s1 = 0 then None
                                          else Some ((h + 1) mod rb_maxSize s1)
                              | None \<Rightarrow> None)\<rparr>;
         s3 = s2\<lparr>rb_totalPushed := rb_totalPushed s2 + 1\<rparr>
     in if rb_size s3 < rb_maxSize s3 then s3\<lparr>rb_size := rb_size s3 + 1\<rparr>
        else s3\<lparr>rb_totalEvicted := rb_totalEvicted s3 + 1\<rparr>)"

text \<open>Reading a slot: \<open>undefined\<close> for an empty slot and outside the array.\<close>

definition js_slot :: "'a option list \<Rightarrow> int \<Rightarrow> 'a option" where
  "js_slot xs i = (case js_at xs i of Some (Some v) \<Rightarrow> Some v | _ \<Rightarrow> None)"

text \<open>\<open>getEntries()\<close>: the slots as read, in chronological order.\<close>

definition RingBufferStrategy_getEntries :: "RingBufferStrategy \<Rightarrow> MetricEntry option list" where
  "RingBufferStrategy_getEntries s =
    (if rb_size s = 0 then []
     else if rb_size s < rb_maxSize s
       then map (\<lambda>i. js_slot (rb_buffer s) (int i)) [0..<rb_size s]
       else map (\<lambda>i. case rb_head s of
                         Some h \<Rightarrow> js_slot (rb_buffer s) (int ((h + i) mod rb_maxSize s))
                       | None \<Rightarrow> None)
              [0..<rb_maxSize s])"

text \<open>Reading \<open>.timestamp\<close> of a slot: a TypeError on \<open>undefined\<close>.\<close>

definition slot_timestamp :: "MetricEntry option \<Rightarrow> js_error + int" where
  "slot_timestamp e = (case e of None \<Rightarrow> Inl TypeError | Some x \<Rightarrow> Inr (timestamp x))"

definition RingBufferStrategy_getSnapshot ::
  "RingBufferStrategy \<Rightarrow> js_error + MetricEntry option WindowSnapshot" where
  "RingBufferStrategy_getSnapshot s =
    (let entries = RingBufferStrategy_getEntries s
     in case (if length entries > 0 then slot_timestamp (entries ! 0) else Inr 0) of
          Inl e \<Rightarrow> Inl e
        | Inr startTime \<Rightarrow>
           (case (if length entries > 0 then slot_timestamp (entries ! (length entries - 1))
                  else Inr 0) of
              Inl e \<Rightarrow> Inl e
            | Inr endTime \<Rightarrow>
                Inr \<lparr>ws_entries = entries, ws_startTime = startTime, ws_endTime = endTime,
                     ws_size = length entries, ws_totalPushed = rb_totalPushed s,
                     ws_totalEvicted = rb_totalEvicted s\<rparr>))"

text \<open>
  The callbacks of \<open>filter\<close> read \<open>e.metric\<close> of every entry, so the aggregate
  functions throw a TypeError when a slot is \<open>undefined\<close>; \<open>those\<close> is \<open>None\<close> then.
\<close>

definition RingBufferStrategy_getPercentiles ::
  "RingBufferStrategy \<Rightarrow> MetricType \<Rightarrow> js_error + PercentileResult" where
  "RingBufferStrategy_getPercentiles s m =
    (case those (RingBufferStrategy_getEntries s) of
       None \<Rightarrow> Inl TypeError
     | Some entries \<Rightarrow> Inr (computePercentiles entries m))"

definition RingBufferStrategy_getStagePercentiles ::
  "RingBufferStrategy \<Rightarrow> string \<Rightarrow> MetricType \<Rightarrow> js_error + PercentileResult" where
  "RingBufferStrategy_getStagePercentiles s stage m =
    (case those (RingBufferStrategy_getEntries s) of
       None \<Rightarrow> Inl TypeError
     | Some all_entries \<Rightarrow>
         (let entries = filter (\<lambda>e. stageName e = stage) all_entries
          in Inr (computePercentiles entries m)))"

definition RingBufferStrategy_getMetricResult ::
  "RingBufferStrategy \<Rightarrow> int \<Rightarrow> js_error + MetricResult" where
  "RingBufferStrategy_getMetricResult s now =
    (case those (RingBufferStrategy_getEntries s) of
       None \<Rightarrow> Inl TypeError
     | Some entries \<Rightarrow>
         Inr \<lparr>latencyPercentiles = computePercentiles entries Latency,
              stagePercentiles = computeStagePercentiles entries Latency,
              totalErrors = foldl (\<lambda>sum e. round_double (sum + val e)) 0
                              (filter (\<lambda>e. metric e = ErrorCount) entries),
              stageErrors = computeStageErrors entries,
              totalInvocations = length (filter (\<lambda>e. metric e = StageInvocation) entries),
              windowInfo =
                \<lparr>wi_type = RingBuffer,
                 wi_startTime = (if length entries > 0 then timestamp (entries ! 0) else now),
                 wi_endTime = (if length entries > 0
                               then timestamp (entries ! (length entries - 1)) else now),
                 entryCount = length entries\<rparr>,
              computedAt = now\<rparr>)"

text \<open>\<open>clear()\<close>: a new array of \<open>maxSize\<close> slots, which the constructor allocated before.\<close>

definition RingBufferStrategy_clear :: "RingBufferStrategy \<Rightarrow> RingBufferStrategy" where
  "RingBufferStrategy_clear s =
    s\<lparr>rb_buffer := replicate (rb_maxSize s) None, rb_head := Some 0, rb_size := 0,
      rb_totalPushed := 0, rb_totalEvicted := 0\<rparr>"

definition RingBufferStrategy_getConfig :: "RingBufferStrategy \<Rightarrow> WindowConfig" where
  "RingBufferStrategy_getConfig s = RingBufferConfig (rb_maxSize s)"

definition RingBufferStrategy_getSize :: "RingBufferStrategy \<Rightarrow> nat" where
  "RingBufferStrategy_getSize s = rb_size s"

definition RingBufferStrategy_isFull :: "RingBufferStrategy \<Rightarrow> bool" where
  "RingBufferStrategy_isFull s = (rb_size s \<ge> rb_maxSize s)"

section \<open>SlidingWindowStrategy\<close>

text \<open>
  The fields of the class, prefixed \<open>sw_\<close>. \<open>Date.now()\<close> is the argument \<open>now\<close>
  of every method that reads the clock; a method that evicts returns the new state too.
\<close>

record SlidingWindowStrategy =
  sw_entries :: "MetricEntry list"
  sw_windowMs :: int
  sw_totalPushed :: nat
  sw_totalEvicted :: nat

definition SlidingWindowStrategy_new :: "int option \<Rightarrow> SlidingWindowStrategy" where
  "SlidingWindowStrategy_new config_windowMs =
    \<lparr>sw_entries = [],
     sw_windowMs = (case config_windowMs of Some w \<Rightarrow> w | None \<Rightarrow> 300000),
     sw_totalPushed = 0, sw_totalEvicted = 0\<rparr>"

text \<open>\<open>evictStale(referenceTime)\<close>, with \<open>referenceTime ?? Date.now()\<close>.\<close>

definition evictStale ::
  "SlidingWindowStrategy \<Rightarrow> int option \<Rightarrow> int \<Rightarrow> SlidingWindowStrategy" where
  "evictStale s referenceTime now =
    (let cutoff = (case referenceTime of Some r \<Rightarrow> r | None \<Rightarrow> now) - sw_windowMs s;
         before = length (sw_entries s);
         s1 = s\<lparr>sw_entries := filter (\<lambda>e. timestamp e \<ge> cutoff) (sw_entries s)\<rparr>
     in s1\<lparr>sw_totalEvicted := sw_totalEvicted s1 + (before - length (sw_entries s1))\<rparr>)"

text \<open>\<open>push(entry)\<close> never reads the clock: the reference is the entry's timestamp.\<close>

definition SlidingWindowStrategy_push ::
  "SlidingWindowStrategy \<Rightarrow> MetricEntry \<Rightarrow> SlidingWindowStrategy" where
  "SlidingWindowStrategy_push s entry =
    (let s1 = s\<lparr>sw_totalPushed := sw_totalPushed s + 1\<rparr>;
         s2 = s1\<lparr>sw_entries := sw_entries s1 @ [entry]\<rparr>
     in evictStale s2 (Some (timestamp entry)) (timestamp entry))"

definition SlidingWindowStrategy_getPercentiles ::
  "SlidingWindowStrategy \<Rightarrow> MetricType \<Rightarrow> int \<Rightarrow> PercentileResult \<times> SlidingWindowStrategy" where
  "SlidingWindowStrategy_getPercentiles s m now =
    (let s1 = evictStale s None now in (computePercentiles (sw_entries s1) m, s1))"

definition SlidingWindowStrategy_getStagePercentiles ::
  "SlidingWindowStrategy \<Rightarrow> string \<Rightarrow> MetricType \<Rightarrow> int
     \<Rightarrow> PercentileResult \<times> SlidingWindowStrategy" where
  "SlidingWindowStrategy_getStagePercentiles s stage m now =
    (let s1 = evictStale s None now;
         filtered = filter (\<lambda>e. stageName e = stage) (sw_entries s1)
     in (computePercentiles filtered m, s1))"

definition SlidingWindowStrategy_getSnapshot ::
  "SlidingWindowStrategy \<Rightarrow> int \<Rightarrow> MetricEntry WindowSnapshot \<times> SlidingWindowStrategy" where
  "SlidingWindowStrategy_getSnapshot s now =
    (let s1 = evictStale s None now
     in (\<lparr>ws_entries = sw_entries s1, ws_startTime = now - sw_windowMs s1, ws_endTime = now,
          ws_size = length (sw_entries s1), ws_totalPushed = sw_totalPushed s1,
          ws_totalEvicted = sw_totalEvicted s1\<rparr>, s1))"

definition SlidingWindowStrategy_getMetricResult ::
  "SlidingWindowStrategy \<Rightarrow> int \<Rightarrow> MetricResult \<times> SlidingWindowStrategy" where
  "SlidingWindowStrategy_getMetricResult s now =
    (let s1 = evictStale s None now
     in (\<lparr>latencyPercentiles = computePercentiles (sw_entries s1) Latency,
          stagePercentiles = computeStagePercentiles (sw_entries s1) Latency,
          totalErrors = foldl (\<lambda>sum e. round_double (sum + val e)) 0
                          (filter (\<lambda>e. metric e = ErrorCount) (sw_entries s1)),
          stageErrors = computeStageErrors (sw_entries s1),
          totalInvocations = length (filter (\<lambda>e. metric e = StageInvocation) (sw_entries s1)),
          windowInfo =
            \<lparr>wi_type = Sliding, wi_startTime = now - sw_windowMs s1, wi_endTime = now,
             entryCount = length (sw_entries s1)\<rparr>,
          computedAt = now\<rparr>, s1))"

definition SlidingWindowStrategy_clear :: "SlidingWindowStrategy \<Rightarrow> SlidingWindowStrategy" where
  "SlidingWindowStrategy_clear s = s\<lparr>sw_entries := [], sw_totalPushed := 0, sw_totalEvicted := 0\<rparr>"

definition SlidingWindowStrategy_getConfig :: "SlidingWindowStrategy \<Rightarrow> WindowConfig" where
  "SlidingWindowStrategy_getConfig s = SlidingConfig (sw_windowMs s)"

definition SlidingWindowStrategy_getSize ::
  "SlidingWindowStrategy \<Rightarrow> int \<Rightarrow> nat \<times> SlidingWindowStrategy" where
  "SlidingWindowStrategy_getSize s now =
    (let s1 = evictStale s None now in (length (sw_entries s1), s1))"

section \<open>TumblingWindowStrategy\<close>

text \<open>\<open>MetricBucket\<close>, fields prefixed \<open>mb_\<close>.\<close>

record MetricBucket =
  mb_entries :: "MetricEntry list"
  mb_startTime :: int
  mb_endTime :: int
  mb_percentiles :: PercentileResult

text \<open>The fields of the class, prefixed \<open>tw_\<close>.\<close>

record TumblingWindowStrategy =
  tw_currentBucket :: "MetricEntry list"
  tw_bucketStartTime :: int
  tw_windowMs :: int
  tw_maxArchivedBuckets :: int
  tw_archivedBuckets :: "MetricBucket list"
  tw_totalPushed :: nat
  tw_totalEvicted :: nat

text \<open>The constructor; \<open>now\<close> is \<open>Date.now()\<close>.\<close>

definition TumblingWindowStrategy_new ::
  "int option \<Rightarrow> int option \<Rightarrow> int \<Rightarrow> TumblingWindowStrategy" where
  "TumblingWindowStrategy_new config_windowMs config_maxArchivedBuckets now =
    \<lparr>tw_currentBucket = [],
     tw_bucketStartTime = now,
     tw_windowMs = (case config_windowMs of Some w \<Rightarrow> w | None \<Rightarrow> 60000),
     tw_maxArchivedBuckets = (case config_maxArchivedBuckets of Some n \<Rightarrow> n | None \<Rightarrow> 10),
     tw_archivedBuckets = [], tw_totalPushed = 0, tw_totalEvicted = 0\<rparr>"

text \<open>
  The eviction loop of \<open>archiveBucket\<close>:
  \<open>while (archivedBuckets.length > maxArchivedBuckets) { evicted = shift(); ... }\<close>,
  on the list of archived buckets and the evicted counter. With a negative maximum the
  loop keeps shifting the empty list and never ends: the result is \<open>None\<close>.
\<close>

fun evict_archived ::
  "int \<Rightarrow> MetricBucket list \<Rightarrow> nat \<Rightarrow> (MetricBucket list \<times> nat) option" where
  "evict_archived maxArchived [] totalEvicted =
     (if 0 > maxArchived then None else Some ([], totalEvicted))"
| "evict_archived maxArchived (b # bs) totalEvicted =
     (if int (length (b # bs)) > maxArchived
      then evict_archived maxArchived bs (totalEvicted + length (mb_entries b))
      else Some (b # bs, totalEvicted))"

definition archiveBucket ::
  "TumblingWindowStrategy \<Rightarrow> MetricEntry list \<Rightarrow> int \<Rightarrow> int \<Rightarrow> TumblingWindowStrategy option" where
  "archiveBucket s entries startTime endTime =
    (let bucket = \<lparr>mb_entries = entries, mb_startTime = startTime, mb_endTime = endTime,
                   mb_percentiles = computePercentiles entries Latency\<rparr>
     in case evict_archived (tw_maxArchivedBuckets s) (tw_archivedBuckets s @ [bucket])
               (tw_totalEvicted s) of
          None \<Rightarrow> None
        | Some (archived, evicted) \<Rightarrow>
            Some (s\<lparr>tw_archivedBuckets := archived, tw_totalEvicted := evicted\<rparr>))"

definition closeBucket :: "TumblingWindowStrategy \<Rightarrow> int \<Rightarrow> TumblingWindowStrategy option" where
  "closeBucket s endTime =
    (case (if length (tw_currentBucket s) > 0
           then archiveBucket s (tw_currentBucket s) (tw_bucketStartTime s) endTime
           else Some s) of
       None \<Rightarrow> None
     | Some s1 \<Rightarrow> Some (s1\<lparr>tw_currentBucket := []\<rparr>))"

text \<open>
  The loop of \<open>push\<close> over the skipped windows:
  \<open>while (entry.timestamp >= bucketStartTime + windowMs) { archiveBucket([], ...);
  bucketStartTime += windowMs }\<close>. With \<open>windowMs \<le> 0\<close> the condition stays true once
  it is true, and the loop never ends: the result is \<open>None\<close>.
\<close>

function skip_windows :: "TumblingWindowStrategy \<Rightarrow> int \<Rightarrow> TumblingWindowStrategy option" where
  "skip_windows s ts =
    (if ts \<ge> tw_bucketStartTime s + tw_windowMs s
     then if tw_windowMs s \<le> 0 then None
          else (case archiveBucket s [] (tw_bucketStartTime s)
                       (tw_bucketStartTime s + tw_windowMs s) of
                  None \<Rightarrow> None
                | Some s1 \<Rightarrow>
                    skip_windows (s1\<lparr>tw_bucketStartTime := tw_bucketStartTime s1 + tw_windowMs s1\<rparr>) ts)
     else Some s)"
  by pat_completeness auto

lemma archiveBucket_frame:
  assumes "archiveBucket s es a b = Some s1"
  shows "tw_bucketStartTime s1 = tw_bucketStartTime s" "tw_windowMs s1 = tw_windowMs s"
    "tw_maxArchivedBuckets s1 = tw_maxArchivedBuckets s" "tw_currentBucket s1 = tw_currentBucket s"
    "tw_totalPushed s1 = tw_totalPushed s"
  using assms by (auto simp: archiveBucket_def Let_def split: option.splits)

termination skip_windows
proof (relation "measure (\<lambda>(s, ts). nat (ts - tw_bucketStartTime s))")
  show "wf (measure (\<lambda>(s, ts). nat (ts - tw_bucketStartTime s)))" by simp
next
  fix s :: TumblingWindowStrategy and ts :: int and s1 :: TumblingWindowStrategy
  assume a: "tw_bucketStartTime s + tw_windowMs s \<le> ts" "\<not> tw_windowMs s \<le> 0"
    and b: "archiveBucket s [] (tw_bucketStartTime s) (tw_bucketStartTime s + tw_windowMs s) = Some s1"
  note f = archiveBucket_frame [OF b]
  show "((s1\<lparr>tw_bucketStartTime := tw_bucketStartTime s1 + tw_windowMs s1\<rparr>, ts), (s, ts))
        \<in> measure (\<lambda>(s, ts). nat (ts - tw_bucketStartTime s))"
    using a by (simp add: f)
qed

text \<open>\<open>push(entry)\<close>; \<open>None\<close> when one of its loops never ends.\<close>

definition TumblingWindowStrategy_push ::
  "TumblingWindowStrategy \<Rightarrow> MetricEntry \<Rightarrow> TumblingWindowStrategy option" where
  "TumblingWindowStrategy_push s entry =
    (let s1 = s\<lparr>tw_totalPushed := tw_totalPushed s + 1\<rparr>;
         bucketEndTime = tw_bucketStartTime s1 + tw_windowMs s1
     in case (if timestamp entry \<ge> bucketEndTime
              then (case closeBucket s1 bucketEndTime of
                      None \<Rightarrow> None
                    | Some s2 \<Rightarrow>
                        skip_windows (s2\<lparr>tw_bucketStartTime := bucketEndTime\<rparr>) (timestamp entry))
              else Some s1) of
          None \<Rightarrow> None
        | Some s3 \<Rightarrow> Some (s3\<lparr>tw_currentBucket := tw_currentBucket s3 @ [entry]\<rparr>))"

text \<open>\<open>flushCurrentBucket()\<close>: the bucket it returns (\<open>null\<close> is \<open>None\<close>) and the new state.\<close>

definition flushCurrentBucket ::
  "TumblingWindowStrategy \<Rightarrow> int \<Rightarrow> (MetricBucket option \<times> TumblingWindowStrategy) option" where
  "flushCurrentBucket s now =
    (if length (tw_currentBucket s) = 0 then Some (None, s)
     else
       let endTime = now;
           bucket = \<lparr>mb_entries = tw_currentBucket s, mb_startTime = tw_bucketStartTime s,
                     mb_endTime = endTime,
                     mb_percentiles = computePercentiles (tw_currentBucket s) Latency\<rparr>
       in case archiveBucket s (tw_currentBucket s) (tw_bucketStartTime s) endTime of
            None \<Rightarrow> None
          | Some s1 \<Rightarrow>
              Some (Some bucket, s1\<lparr>tw_currentBucket := [], tw_bucketStartTime := endTime\<rparr>))"

definition TumblingWindowStrategy_getPercentiles ::
  "TumblingWindowStrategy \<Rightarrow> MetricType \<Rightarrow> PercentileResult" where
  "TumblingWindowStrategy_getPercentiles s m = computePercentiles (tw_currentBucket s) m"

definition TumblingWindowStrategy_getStagePercentiles ::
  "TumblingWindowStrategy \<Rightarrow> string \<Rightarrow> MetricType \<Rightarrow> PercentileResult" where
  "TumblingWindowStrategy_getStagePercentiles s stage m =
    (let entries = filter (\<lambda>e. stageName e = stage) (tw_currentBucket s)
     in computePercentiles entries m)"

definition TumblingWindowStrategy_getSnapshot ::
  "TumblingWindowStrategy \<Rightarrow> MetricEntry WindowSnapshot" where
  "TumblingWindowStrategy_getSnapshot s =
    \<lparr>ws_entries = tw_currentBucket s, ws_startTime = tw_bucketStartTime s,
     ws_endTime = tw_bucketStartTime s + tw_windowMs s, ws_size = length (tw_currentBucket s),
     ws_totalPushed = tw_totalPushed s, ws_totalEvicted = tw_totalEvicted s\<rparr>"

definition TumblingWindowStrategy_getMetricResult ::
  "TumblingWindowStrategy \<Rightarrow> int \<Rightarrow> MetricResult" where
  "TumblingWindowStrategy_getMetricResult s now =
    (let entries = tw_currentBucket s
     in \<lparr>latencyPercentiles = computePercentiles entries Latency,
         stagePercentiles = computeStagePercentiles entries Latency,
         totalErrors = foldl (\<lambda>sum e. round_double (sum + val e)) 0
                         (filter (\<lambda>e. metric e = ErrorCount) entries),
         stageErrors = computeStageErrors entries,
         totalInvocations = length (filter (\<lambda>e. metric e = StageInvocation) entries),
         windowInfo =
           \<lparr>wi_type = Tumbling, wi_startTime = tw_bucketStartTime s,
            wi_endTime = tw_bucketStartTime s + tw_windowMs s, entryCount = length entries\<rparr>,
         computedAt = now\<rparr>)"

definition TumblingWindowStrategy_clear :: "TumblingWindowStrategy \<Rightarrow> int \<Rightarrow> TumblingWindowStrategy" where
  "TumblingWindowStrategy_clear s now =
    s\<lparr>tw_currentBucket := [], tw_archivedBuckets := [], tw_bucketStartTime := now,
      tw_totalPushed := 0, tw_totalEvicted := 0\<rparr>"

definition TumblingWindowStrategy_getConfig :: "TumblingWindowStrategy \<Rightarrow> WindowConfig" where
  "TumblingWindowStrategy_getConfig s = TumblingConfig (tw_windowMs s)"

definition getArchivedBuckets :: "TumblingWindowStrategy \<Rightarrow> MetricBucket list" where
  "getArchivedBuckets s = tw_archivedBuckets s"

section \<open>MetricCollector\<close>

text \<open>
  The events of the recorder interface. \<open>RecorderContext\<close> has the fields every hook
  reads; \<open>StageEvent\<close> and \<open>ErrorEvent\<close> extend it. The field \<open>ee_error\<close> is the text
  \<open>event.error?.message ?? String(event.error)\<close>.
\<close>

record RecorderContext =
  ctx_stageName :: string
  ctx_pipelineId :: string
  ctx_timestamp :: int

record StageEvent = RecorderContext +
  duration :: "real option"

record ErrorEvent = RecorderContext +
  ee_error :: string
  ee_operation :: string
  ee_path :: "string list option"
  ee_key :: "string option"

text \<open>
  The injected strategy: an object with a state and the methods the collector calls on
  it. \<open>push\<close> and \<open>clear\<close> return normally, as the interface \<open>WindowStrategy\<close> declares
  them (\<open>void\<close>).
\<close>

record 's WindowStrategy =
  st_state :: 's
  st_push :: "'s \<Rightarrow> MetricEntry \<Rightarrow> 's"
  st_clear :: "'s \<Rightarrow> 's"

definition strategy_push :: "'s WindowStrategy \<Rightarrow> MetricEntry \<Rightarrow> 's WindowStrategy" where
  "strategy_push str entry = str\<lparr>st_state := st_push str (st_state str) entry\<rparr>"

definition strategy_clear :: "'s WindowStrategy \<Rightarrow> 's WindowStrategy" where
  "strategy_clear str = str\<lparr>st_state := st_clear str (st_state str)\<rparr>"

text \<open>How a call completes: it returns, or it throws to its caller.\<close>

datatype completion = Normal | Throw

text \<open>
  The fields of the class, prefixed \<open>mc_\<close>. The user's callback \<open>onMetricEntry\<close> is a
  function from the entry to the way the call completes. The field \<open>id\<close> is left out: no
  method reads it.
\<close>

record 's MetricCollector =
  mc_strategy :: "'s WindowStrategy"
  mc_trackReads :: bool
  mc_trackWrites :: bool
  mc_trackCommits :: bool
  mc_onMetricEntry :: "(MetricEntry \<Rightarrow> completion) option"
  mc_stageStartTimes :: "string \<rightharpoonup> int"
  mc_observedStages :: "string list"
  mc_totalErrors :: nat
  mc_totalInvocations :: nat
  mc_totalEntries :: nat

text \<open>The constructor, with the defaults \<open>?? true\<close> of the three switches.\<close>

definition MetricCollector_new ::
  "'s WindowStrategy \<Rightarrow> bool option \<Rightarrow> bool option \<Rightarrow> bool option
     \<Rightarrow> (MetricEntry \<Rightarrow> completion) option \<Rightarrow> 's MetricCollector" where
  "MetricCollector_new strategy trackReads trackWrites trackCommits onMetricEntry =
    \<lparr>mc_strategy = strategy,
     mc_trackReads = (case trackReads of Some b \<Rightarrow> b | None \<Rightarrow> True),
     mc_trackWrites = (case trackWrites of Some b \<Rightarrow> b | None \<Rightarrow> True),
     mc_trackCommits = (case trackCommits of Some b \<Rightarrow> b | None \<Rightarrow> True),
     mc_onMetricEntry = onMetricEntry,
     mc_stageStartTimes = Map.empty, mc_observedStages = [],
     mc_totalErrors = 0, mc_totalInvocations = 0, mc_totalEntries = 0\<rparr>"

text \<open>\<open>Set.add\<close> on a set kept in insertion order.\<close>

definition set_add :: "'a list \<Rightarrow> 'a \<Rightarrow> 'a list" where
  "set_add xs x = (if x \<in> set xs then xs else xs @ [x])"

text \<open>
  \<open>emit(entry)\<close>: the counter, the push to the strategy, then the callback inside
  \<open>try { ... } catch { }\<close>, whose handler is empty.
\<close>

definition emit :: "'s MetricCollector \<Rightarrow> MetricEntry \<Rightarrow> completion \<times> 's MetricCollector" where
  "emit c entry =
    (let c1 = c\<lparr>mc_totalEntries := mc_totalEntries c + 1\<rparr>;
         c2 = c1\<lparr>mc_strategy := strategy_push (mc_strategy c1) entry\<rparr>
     in case mc_onMetricEntry c2 of
          None \<Rightarrow> (Normal, c2)
        | Some callback \<Rightarrow>
            (case callback entry of
               Normal \<Rightarrow> (Normal, c2)
             | Throw \<Rightarrow> (Normal, c2)))"

definition onStageStart :: "'s MetricCollector \<Rightarrow> StageEvent \<Rightarrow> completion \<times> 's MetricCollector" where
  "onStageStart c event =
    (let c1 = c\<lparr>mc_stageStartTimes := (mc_stageStartTimes c)(ctx_stageName event \<mapsto> ctx_timestamp event)\<rparr>;
         c2 = c1\<lparr>mc_observedStages := set_add (mc_observedStages c1) (ctx_stageName event)\<rparr>;
         c3 = c2\<lparr>mc_totalInvocations := mc_totalInvocations c2 + 1\<rparr>
     in emit c3 \<lparr>stageName = ctx_stageName event, metric = StageInvocation, val = 1,
                  timestamp = ctx_timestamp event, metadata = None\<rparr>)"

text \<open>
  \<open>onStageEnd(event)\<close>. The statement after the \<open>if\<close>, \<open>stageStartTimes.delete\<close>, runs
  when what came before returned.
\<close>

definition onStageEnd :: "'s MetricCollector \<Rightarrow> StageEvent \<Rightarrow> completion \<times> 's MetricCollector" where
  "onStageEnd c event =
    (case (case duration event of
             Some d \<Rightarrow>
               emit c \<lparr>stageName = ctx_stageName event, metric = Latency, val = d,
                        timestamp = ctx_timestamp event, metadata = None\<rparr>
           | None \<Rightarrow>
               (case mc_stageStartTimes c (ctx_stageName event) of
                  Some startTime \<Rightarrow>
                    (let d = ctx_timestamp event - startTime
                     in emit c \<lparr>stageName = ctx_stageName event, metric = Latency,
                                 val = of_int d, timestamp = ctx_timestamp event,
                                 metadata = None\<rparr>)
                | None \<Rightarrow> (Normal, c))) of
       (Throw, c1) \<Rightarrow> (Throw, c1)
     | (Normal, c1) \<Rightarrow>
         (Normal, c1\<lparr>mc_stageStartTimes := (mc_stageStartTimes c1)(ctx_stageName event := None)\<rparr>))"

definition onError :: "'s MetricCollector \<Rightarrow> ErrorEvent \<Rightarrow> completion \<times> 's MetricCollector" where
  "onError c event =
    (let c1 = c\<lparr>mc_totalErrors := mc_totalErrors c + 1\<rparr>;
         c2 = c1\<lparr>mc_observedStages := set_add (mc_observedStages c1) (ctx_stageName event)\<rparr>
     in emit c2
          \<lparr>stageName = ctx_stageName event, metric = ErrorCount, val = 1,
           timestamp = ctx_timestamp event,
           metadata = Some [(''error'', MString (ee_error event)),
                            (''operation'', MString (ee_operation event)),
                            (''path'', (case ee_path event of Some p \<Rightarrow> MPath p | None \<Rightarrow> MUndefined)),
                            (''key'', (case ee_key event of Some k \<Rightarrow> MString k | None \<Rightarrow> MUndefined))]\<rparr>)"

definition onRead ::
  "'s MetricCollector \<Rightarrow> 'a RecorderContext_scheme \<Rightarrow> completion \<times> 's MetricCollector" where
  "onRead c event =
    (if \<not> mc_trackReads c then (Normal, c)
     else emit c \<lparr>stageName = ctx_stageName event, metric = ReadCount, val = 1,
                   timestamp = ctx_timestamp event, metadata = None\<rparr>)"

definition onWrite ::
  "'s MetricCollector \<Rightarrow> 'a RecorderContext_scheme \<Rightarrow> completion \<times> 's MetricCollector" where
  "onWrite c event =
    (if \<not> mc_trackWrites c then (Normal, c)
     else emit c \<lparr>stageName = ctx_stageName event, metric = WriteCount, val = 1,
                   timestamp = ctx_timestamp event, metadata = None\<rparr>)"

definition onCommit ::
  "'s MetricCollector \<Rightarrow> 'a RecorderContext_scheme \<Rightarrow> completion \<times> 's MetricCollector" where
  "onCommit c event =
    (if \<not> mc_trackCommits c then (Normal, c)
     else emit c \<lparr>stageName = ctx_stageName event, metric = CommitCount, val = 1,
                   timestamp = ctx_timestamp event, metadata = None\<rparr>)"

definition reset :: "'s MetricCollector \<Rightarrow> 's MetricCollector" where
  "reset c =
    c\<lparr>mc_strategy := strategy_clear (mc_strategy c), mc_stageStartTimes := Map.empty,
      mc_observedStages := [], mc_totalErrors := 0, mc_totalInvocations := 0,
      mc_totalEntries := 0\<rparr>"

section \<open>Sequences of calls on a strategy\<close>

text \<open>
  A call of the interface \<open>WindowStrategy\<close>, paired with the clock reading at the time
  of the call. The functions below give the state after the call; the value a query
  returns is dropped.
\<close>

datatype call =
  Push MetricEntry
| GetPercentiles MetricType
| GetStagePercentiles string MetricType
| GetSnapshot
| GetMetricResult
| GetConfig
| GetSize
| Clear

text \<open>The ring buffer's queries assign no field.\<close>

fun RingBufferStrategy_call :: "RingBufferStrategy \<Rightarrow> call \<times> int \<Rightarrow> RingBufferStrategy" where
  "RingBufferStrategy_call s (Push entry, now) = RingBufferStrategy_push s entry"
| "RingBufferStrategy_call s (Clear, now) = RingBufferStrategy_clear s"
| "RingBufferStrategy_call s (q, now) = s"

text \<open>The sliding window's queries evict first, except \<open>getConfig\<close>.\<close>

fun SlidingWindowStrategy_call ::
  "SlidingWindowStrategy \<Rightarrow> call \<times> int \<Rightarrow> SlidingWindowStrategy" where
  "SlidingWindowStrategy_call s (Push entry, now) = SlidingWindowStrategy_push s entry"
| "SlidingWindowStrategy_call s (GetPercentiles m, now) =
     snd (SlidingWindowStrategy_getPercentiles s m now)"
| "SlidingWindowStrategy_call s (GetStagePercentiles stage m, now) =
     snd (SlidingWindowStrategy_getStagePercentiles s stage m now)"
| "SlidingWindowStrategy_call s (GetSnapshot, now) = snd (SlidingWindowStrategy_getSnapshot s now)"
| "SlidingWindowStrategy_call s (GetMetricResult, now) =
     snd (SlidingWindowStrategy_getMetricResult s now)"
| "SlidingWindowStrategy_call s (GetConfig, now) = s"
| "SlidingWindowStrategy_call s (GetSize, now) = snd (SlidingWindowStrategy_getSize s now)"
| "SlidingWindowStrategy_call s (Clear, now) = SlidingWindowStrategy_clear s"

section \<open>Sample entries used in the examples\<close>

definition sample :: "string \<Rightarrow> MetricType \<Rightarrow> real \<Rightarrow> int \<Rightarrow> MetricEntry" where
  "sample s m v t = \<lparr>stageName = s, metric = m, val = v, timestamp = t, metadata = None\<rparr>"

definition ring3 :: RingBufferStrategy where
  "ring3 = \<lparr>rb_buffer = [None, None, None], rb_head = Some 0, rb_size = 0, rb_maxSize = 3,
            rb_totalPushed = 0, rb_totalEvicted = 0\<rparr>"

definition four_latencies :: "MetricEntry list" where
  "four_latencies =
    [sample ''A'' Latency 10 1, sample ''A'' Latency 20 2, sample ''A'' Latency 30 3,
     sample ''A'' Latency 40 4]"

definition ring0 :: RingBufferStrategy where
  "ring0 = \<lparr>rb_buffer = [], rb_head = Some 0, rb_size = 0, rb_maxSize = 0,
            rb_totalPushed = 0, rb_totalEvicted = 0\<rparr>"

definition mixed_calls :: "(call \<times> int) list" where
  "mixed_calls =
    [(Push (sample ''A'' Latency 10 1), 1), (Push (sample ''A'' Latency 20 2), 2),
     (GetSnapshot, 3), (Push (sample ''B'' ErrorCount 1 30), 30), (GetSize, 45),
     (Push (sample ''A'' Latency 40 50), 50)]"

text \<open>
  A tumbling window with buckets of 10 ms, constructed at time 0, and the same after a
  push at time 5.
\<close>

definition tumbling10 :: TumblingWindowStrategy where
  "tumbling10 = TumblingWindowStrategy_new (Some 10) (Some 10) 0"

definition tumbling10_one :: TumblingWindowStrategy where
  "tumbling10_one =
    \<lparr>tw_currentBucket = [sample ''A'' Latency 7 5], tw_bucketStartTime = 0, tw_windowMs = 10,
     tw_maxArchivedBuckets = 10, tw_archivedBuckets = [], tw_totalPushed = 1,
     tw_totalEvicted = 0\<rparr>"

text \<open>
  A strategy that records every entry pushed to it, a callback that throws on every
  entry, and a collector over the two.
\<close>

definition recording_strategy :: "MetricEntry list WindowStrategy" where
  "recording_strategy = \<lparr>st_state = [], st_push = (\<lambda>log entry. log @ [entry]), st_clear = (\<lambda>log. [])\<rparr>"

definition throwing_callback :: "MetricEntry \<Rightarrow> completion" where
  "throwing_callback entry = Throw"

definition recording_collector :: "MetricEntry list MetricCollector" where
  "recording_collector =
     MetricCollector_new recording_strategy None None None (Some throwing_callback)"

definition stage_event :: "string \<Rightarrow> int \<Rightarrow> real option \<Rightarrow> StageEvent" where
  "stage_event stage t d =
     \<lparr>ctx_stageName = stage, ctx_pipelineId = ''p'', ctx_timestamp = t, duration = d\<rparr>"

text \<open>A sliding window of 10 ms holding one entry of time 0.\<close>

definition sliding10_one :: SlidingWindowStrategy where
  "sliding10_one =
     SlidingWindowStrategy_push (SlidingWindowStrategy_new (Some 10)) (sample ''A'' Latency 5 0)"

section \<open>State descriptions used in the proofs\<close>

text \<open>
  The ring buffer of capacity \<open>C\<close> after the entries \<open>xs\<close> were pushed into the fresh
  buffer: the counters, the cursor, and the slots of the last \<open>C\<close> entries.
\<close>

definition rb_after :: "nat \<Rightarrow> MetricEntry list \<Rightarrow> RingBufferStrategy \<Rightarrow> bool" where
  "rb_after C xs s \<longleftrightarrow>
     rb_maxSize s = C \<and> length (rb_buffer s) = C
     \<and> rb_head s = Some (length xs mod C)
     \<and> rb_size s = min (length xs) C
     \<and> rb_totalPushed s = length xs
     \<and> rb_totalEvicted s = length xs - min (length xs) C
     \<and> (\<forall>i < length xs. length xs - i \<le> C \<longrightarrow> rb_buffer s ! (i mod C) = Some (xs ! i))"

text \<open>
  What every ring buffer reached from the constructor satisfies: the counters balance,
  and with a positive capacity the cursor is inside the array and the occupied slots
  hold entries.
\<close>

definition rb_ok :: "RingBufferStrategy \<Rightarrow> bool" where
  "rb_ok s \<longleftrightarrow>
     rb_totalPushed s = rb_size s + rb_totalEvicted s
     \<and> rb_size s \<le> rb_maxSize s
     \<and> (0 < rb_maxSize s \<longrightarrow>
          length (rb_buffer s) = rb_maxSize s
          \<and> (\<exists>h. rb_head s = Some h \<and> h < rb_maxSize s
                  \<and> (rb_size s < rb_maxSize s \<longrightarrow> h = rb_size s))
          \<and> (\<forall>i < rb_size s. rb_buffer s ! i \<noteq> None))"

text \<open>The counters of a sliding window balance.\<close>

definition sw_ok :: "SlidingWindowStrategy \<Rightarrow> bool" where
  "sw_ok s \<longleftrightarrow> sw_totalPushed s = length (sw_entries s) + sw_totalEvicted s"

section \<open>Vocabulary for the archive of the tumbling window\<close>

text \<open>The last \<open>m\<close> elements of a list: what the archive retains.\<close>

definition keep_last :: "nat \<Rightarrow> 'a list \<Rightarrow> 'a list" where
  "keep_last m xs = drop (length xs - m) xs"

text \<open>An explicitly empty bucket over a time range, with the all-zero bundle.\<close>

definition empty_bucket :: "int \<Rightarrow> int \<Rightarrow> MetricBucket" where
  "empty_bucket a b =
    \<lparr>mb_entries = [], mb_startTime = a, mb_endTime = b,
     mb_percentiles = \<lparr>pr_min = 0, pr_max = 0, p50 = 0, p95 = 0, p99 = 0, mean = 0, count = 0\<rparr>\<rparr>"

text \<open>\<open>n\<close> empty buckets of duration \<open>w\<close>, one after the other, the first at \<open>start\<close>.\<close>

fun empty_buckets :: "int \<Rightarrow> int \<Rightarrow> nat \<Rightarrow> MetricBucket list" where
  "empty_buckets start w 0 = []"
| "empty_buckets start w (Suc n) = empty_bucket start (start + w) # empty_buckets (start + w) w n"

text \<open>What closing the active bucket at \<open>endTime\<close> archives: nothing when it is empty.\<close>

definition closed_bucket :: "TumblingWindowStrategy \<Rightarrow> int \<Rightarrow> MetricBucket list" where
  "closed_bucket s endTime =
    (if tw_currentBucket s = [] then []
     else [\<lparr>mb_entries = tw_currentBucket s, mb_startTime = tw_bucketStartTime s,
            mb_endTime = endTime,
            mb_percentiles = computePercentiles (tw_currentBucket s) Latency\<rparr>])"

text \<open>The time ranges of a list of buckets follow one another without a gap.\<close>

fun contiguous :: "MetricBucket list \<Rightarrow> bool" where
  "contiguous [] = True"
| "contiguous [b] = True"
| "contiguous (b # c # bs) = (mb_endTime b = mb_startTime c \<and> contiguous (c # bs))"

text \<open>
  A tumbling window whose configuration lets \<open>push\<close> return: a positive bucket duration
  and a non-negative archive maximum, which the archive respects.
\<close>

definition tw_ok :: "TumblingWindowStrategy \<Rightarrow> bool" where
  "tw_ok s \<longleftrightarrow>
     0 < tw_windowMs s \<and> 0 \<le> tw_maxArchivedBuckets s
     \<and> int (length (tw_archivedBuckets s)) \<le> tw_maxArchivedBuckets s"

text \<open>A result with its field \<open>computedAt\<close> set to a fixed value, for comparing results.\<close>

definition modulo_computedAt :: "MetricResult \<Rightarrow> MetricResult" where
  "modulo_computedAt r = r\<lparr>computedAt := 0\<rparr>"

section \<open>Properties of the rounding\<close>


lemma round_half_even_of_int [simp]: "round_half_even (of_int k) = k"
  by (simp add: round_half_even_def)



lemma two_powi_nat: "0 \<le> e \<Longrightarrow> (2::real) powi e = 2 ^ nat e"
  by (simp add: power_int_def)

lemma two_powi_pos [simp]: "0 < (2::real) powi e"
  by (simp add: zero_less_power_int)

lemma binade_bounds:
  assumes "0 < x"
  shows "2 powi (binade x) \<le> x" "x < 2 powi (binade x + 1)"
proof -
  show "2 powi (binade x) \<le> x"
  proof (cases "1 \<le> x")
    case True
    then have k: "0 < \<lfloor>x\<rfloor>" by simp
    note b = bitlen_bounds [OF k]
    have nn: "0 \<le> bitlen \<lfloor>x\<rfloor> - 1" using k by (simp add: bitlen_alt_def)
    have "(2::real) powi (bitlen \<lfloor>x\<rfloor> - 1) = 2 ^ nat (bitlen \<lfloor>x\<rfloor> - 1)"
      by (rule two_powi_nat [OF nn])
    also have "\<dots> = of_int (2 ^ nat (bitlen \<lfloor>x\<rfloor> - 1))" by simp
    also have "\<dots> \<le> of_int \<lfloor>x\<rfloor>" using b by (intro of_int_le_iff [THEN iffD2]) simp
    also have "\<dots> \<le> x" by simp
    finally show ?thesis using True by (simp add: binade_def)
  next
    case False
    let ?y = "1 / x"
    from False assms have y: "1 < ?y" by simp
    then have j: "0 < \<lceil>?y\<rceil> - 1" by (simp add: less_ceiling_iff)
    note b = bitlen_bounds [OF j]
    let ?b = "bitlen (\<lceil>?y\<rceil> - 1)"
    have c: "\<lceil>?y\<rceil> \<le> 2 ^ nat ?b" using b by simp
    have "?y \<le> of_int \<lceil>?y\<rceil>" by (rule le_of_int_ceiling)
    also have "\<dots> \<le> (of_int (2 ^ nat ?b) :: real)" using c by (rule of_int_le_iff [THEN iffD2])
    also have "\<dots> = 2 ^ nat ?b" by simp
    finally have "?y \<le> 2 ^ nat ?b" .
    then have "1 / 2 ^ nat ?b \<le> x" using assms by (simp add: field_simps)
    moreover have "(2::real) powi (- ?b) = 1 / 2 ^ nat ?b"
      by (simp add: power_int_minus_divide two_powi_nat bitlen_nonneg)
    ultimately show ?thesis using False by (simp add: binade_def)
  qed
  show "x < 2 powi (binade x + 1)"
  proof (cases "1 \<le> x")
    case True
    then have k: "0 < \<lfloor>x\<rfloor>" by simp
    note b = bitlen_bounds [OF k]
    have "\<lfloor>x\<rfloor> + 1 \<le> 2 ^ nat (bitlen \<lfloor>x\<rfloor>)" using b by simp
    then have "of_int (\<lfloor>x\<rfloor> + 1) \<le> (of_int (2 ^ nat (bitlen \<lfloor>x\<rfloor>)) :: real)"
      by (intro of_int_le_iff [THEN iffD2])
    then have "real_of_int \<lfloor>x\<rfloor> + 1 \<le> 2 ^ nat (bitlen \<lfloor>x\<rfloor>)" by simp
    moreover have "x < of_int \<lfloor>x\<rfloor> + 1" by linarith
    ultimately have "x < 2 ^ nat (bitlen \<lfloor>x\<rfloor>)" by linarith
    moreover have "(2::real) powi (bitlen \<lfloor>x\<rfloor>) = 2 ^ nat (bitlen \<lfloor>x\<rfloor>)"
      by (rule two_powi_nat [OF bitlen_nonneg])
    ultimately show ?thesis using True by (simp add: binade_def)
  next
    case False
    let ?y = "1 / x"
    from False assms have y: "1 < ?y" by simp
    then have j: "0 < \<lceil>?y\<rceil> - 1" by (simp add: less_ceiling_iff)
    note b = bitlen_bounds [OF j]
    let ?b = "bitlen (\<lceil>?y\<rceil> - 1)"
    have b1: "1 \<le> ?b" using j by (simp add: bitlen_alt_def)
    have "of_int (2 ^ nat (?b - 1)) \<le> (of_int (\<lceil>?y\<rceil> - 1) :: real)"
      using b by (intro of_int_le_iff [THEN iffD2]) simp
    moreover have "of_int (\<lceil>?y\<rceil> - 1) < ?y" using ceiling_correct [of ?y] by simp
    ultimately have "2 ^ nat (?b - 1) < ?y" by simp
    then have "x < 1 / 2 ^ nat (?b - 1)" using assms by (simp add: field_simps)
    moreover have "(2::real) powi (- ?b + 1) = 1 / 2 ^ nat (?b - 1)"
    proof -
      have "(2::real) powi (- ?b + 1) = 2 powi (- (?b - 1))" by simp
      also have "\<dots> = 1 / 2 powi (?b - 1)" by (rule power_int_minus_divide)
      also have "\<dots> = 1 / 2 ^ nat (?b - 1)" using b1 by (simp add: two_powi_nat)
      finally show ?thesis .
    qed
    ultimately show ?thesis using False by (simp add: binade_def)
  qed
qed

lemma binade_unique:
  assumes "0 < x" "2 powi e \<le> x" "x < 2 powi (e + 1)"
  shows "binade x = e"
proof -
  note b = binade_bounds [OF assms(1)]
  have "\<not> binade x < e"
  proof
    assume "binade x < e"
    then have "(2::real) powi (binade x + 1) \<le> 2 powi e" by (intro power_int_increasing) simp_all
    with b(2) assms(2) show False by linarith
  qed
  moreover have "\<not> e < binade x"
  proof
    assume "e < binade x"
    then have "(2::real) powi (e + 1) \<le> 2 powi (binade x)" by (intro power_int_increasing) simp_all
    with b(1) assms(3) show False by linarith
  qed
  ultimately show ?thesis by simp
qed


lemma ulp_of_pos [simp]: "0 < ulp_of x"
  by (simp add: ulp_of_def)

lemma ulp_of_nonneg [simp]: "0 \<le> ulp_of x"
  using ulp_of_pos [of x] by (rule less_imp_le)

lemma ulp_of_nonzero [simp]: "ulp_of x \<noteq> 0"
  using ulp_of_pos [of x] by linarith

lemma round_double_pos:
  "0 < x \<Longrightarrow> round_double x = of_int (round_half_even (x / ulp_of x)) * ulp_of x"
  by (simp add: round_double_def)

lemma ulp_of_minus [simp]: "ulp_of (- x) = ulp_of x"
  by (simp add: ulp_of_def)

lemma round_double_minus: "round_double (- x) = - round_double x"
  by (simp add: round_double_def sgn_minus)

lemma round_double_0 [simp]: "round_double 0 = 0"
  by (simp add: round_double_def)




lemma round_double_scaled_int_pos:
  assumes "0 < m" "m < 2 ^ 53" "- 1074 \<le> k"
  shows "round_double (of_int m * 2 powi k) = of_int m * 2 powi k"
proof -
  let ?x = "of_int m * (2::real) powi k"
  let ?E = "max (binade \<bar>?x\<bar>) (- 1022)"
  have x: "0 < ?x" using assms(1) by simp
  have "binade ?x < k + 53"
  proof (rule ccontr)
    assume "\<not> binade ?x < k + 53"
    then have "(2::real) powi (k + 53) \<le> 2 powi (binade ?x)"
      by (intro power_int_increasing) simp_all
    also have "\<dots> \<le> ?x" by (rule binade_bounds(1) [OF x])
    also have "\<dots> < of_int (2 ^ 53) * 2 powi k"
      using assms(2) by (intro mult_strict_right_mono of_int_less_iff [THEN iffD2]) simp_all
    also have "\<dots> = 2 powi (k + 53)"
      by (subst power_int_add) (simp_all add: mult.commute)
    finally show False by simp
  qed
  then have n: "0 \<le> k - (?E - 52)" using assms(3) x by (simp add: max_def)
  have u: "ulp_of ?x = 2 powi (?E - 52)" by (simp add: ulp_of_def)
  have "?x / ulp_of ?x = of_int m * (2 powi k / 2 powi (?E - 52))" by (simp add: u)
  also have "2 powi k / (2::real) powi (?E - 52) = 2 powi (k - (?E - 52))"
    by (subst power_int_diff) simp_all
  also have "\<dots> = 2 ^ nat (k - (?E - 52))" by (rule two_powi_nat [OF n])
  finally have q: "?x / ulp_of ?x = of_int (m * 2 ^ nat (k - (?E - 52)))" by simp
  have "round_double ?x = of_int (m * 2 ^ nat (k - (?E - 52))) * ulp_of ?x"
    unfolding round_double_pos [OF x] q round_half_even_of_int ..
  also have "\<dots> = ?x / ulp_of ?x * ulp_of ?x" by (simp only: q)
  also have "\<dots> = ?x" by simp
  finally show ?thesis .
qed

lemma round_double_of_int:
  assumes "\<bar>m\<bar> < 2 ^ 53"
  shows "round_double (of_int m) = of_int m"
proof -
  consider "m = 0" | "0 < m" | "m < 0" by linarith
  then show ?thesis
  proof cases
    case 1
    then show ?thesis by simp
  next
    case 2
    with assms round_double_scaled_int_pos [of m 0] show ?thesis by simp
  next
    case 3
    with assms round_double_scaled_int_pos [of "- m" 0]
    have "round_double (- of_int m) = - of_int m" by simp
    then show ?thesis by (simp add: round_double_minus)
  qed
qed


lemma round_double_numeral:
  "(numeral w :: int) < 2 ^ 53 \<Longrightarrow> round_double (numeral w) = numeral w"
  using round_double_of_int [of "numeral w"] by simp

lemma round_double_1 [simp]: "round_double 1 = 1"
  using round_double_of_int [of 1] by simp


section \<open>Percentiles\<close>





lemma double_rank_single [simp]: "double_rank [x] p = 0"
  by (simp add: double_rank_def)





lemma double_rank_0 [simp]: "double_rank xs 0 = 0"
  by (simp add: double_rank_def)





lemma round_double_half [simp]: "round_double (1 / 2) = 1 / 2"
  using round_double_scaled_int_pos [of 1 "- 1"] by (simp add: power_int_minus)












lemma percentile_20_30_40:
  "percentile [20, 30, 40] 50 = Some 30"
  "percentile [20, 30, 40] 95 = Some 39"
  "percentile [20, 30, 40] 99 = Some (5601352036542055 / 140737488355328)"
  by code_simp+



section \<open>Properties of the ring buffer\<close>

lemma mod_distinct_within_window:
  fixes i n C :: nat
  assumes "i < n" "n - i < C"
  shows "i mod C \<noteq> n mod C"
proof
  assume "i mod C = n mod C"
  then have "C dvd n - i" using assms(1) by (metis mod_eq_dvd_iff_nat less_imp_le)
  moreover have "0 < n - i" using assms(1) by simp
  ultimately have "C \<le> n - i" by (rule dvd_imp_le)
  with assms(2) show False by simp
qed

lemma rb_after_fresh:
  assumes "RingBufferStrategy_new (Some c) = Inr s0" "0 < c"
  shows "rb_after (nat c) [] s0"
  using assms
  by (auto simp: RingBufferStrategy_new_def new_Array_def rb_after_def split: if_splits)

lemma rb_after_push:
  assumes C: "0 < C" and inv: "rb_after C xs s"
  shows "rb_after C (xs @ [e]) (RingBufferStrategy_push s e)"
proof -
  let ?n = "length xs"
  from inv have f: "rb_maxSize s = C" "length (rb_buffer s) = C" "rb_head s = Some (?n mod C)"
    "rb_size s = min ?n C" "rb_totalPushed s = ?n" "rb_totalEvicted s = ?n - min ?n C"
    and slots: "\<And>i. i < ?n \<Longrightarrow> ?n - i \<le> C \<Longrightarrow> rb_buffer s ! (i mod C) = Some (xs ! i)"
    by (simp_all add: rb_after_def)
  have h: "?n mod C < C" using C by simp
  have buf: "rb_buffer (RingBufferStrategy_push s e) = (rb_buffer s)[?n mod C := Some e]"
    using f h by (simp add: RingBufferStrategy_push_def Let_def js_store_def)
  have hd: "rb_head (RingBufferStrategy_push s e) = Some (Suc ?n mod C)"
    using f C by (simp add: RingBufferStrategy_push_def Let_def mod_Suc_eq)
  have rest: "rb_maxSize (RingBufferStrategy_push s e) = C"
    "rb_size (RingBufferStrategy_push s e) = min (Suc ?n) C"
    "rb_totalPushed (RingBufferStrategy_push s e) = Suc ?n"
    "rb_totalEvicted (RingBufferStrategy_push s e) = Suc ?n - min (Suc ?n) C"
    using f C by (auto simp: RingBufferStrategy_push_def Let_def min_def)
  have new_slots: "rb_buffer (RingBufferStrategy_push s e) ! (i mod C) = Some ((xs @ [e]) ! i)"
    if i: "i < Suc ?n" "Suc ?n - i \<le> C" for i
  proof (cases "i = ?n")
    case True
    then show ?thesis using f h by (simp add: buf)
  next
    case False
    with i have lt: "i < ?n" and win: "?n - i < C" "?n - i \<le> C" by linarith+
    have "i mod C \<noteq> ?n mod C" by (rule mod_distinct_within_window [OF lt win(1)])
    then have "(rb_buffer s)[?n mod C := Some e] ! (i mod C) = rb_buffer s ! (i mod C)"
      by simp
    also have "\<dots> = Some (xs ! i)" by (rule slots [OF lt win(2)])
    finally show ?thesis using lt by (simp add: buf nth_append)
  qed
  show ?thesis
    unfolding rb_after_def using f buf hd rest new_slots by simp
qed

lemma rb_after_pushes:
  assumes "0 < C" "rb_after C [] s0"
  shows "rb_after C xs (foldl RingBufferStrategy_push s0 xs)"
proof (induction xs rule: rev_induct)
  case Nil
  show ?case using assms(2) by simp
next
  case (snoc e xs)
  then show ?case using rb_after_push [OF assms(1)] by simp
qed

lemma rb_after_getEntries:
  assumes C: "0 < C" and inv: "rb_after C xs s"
  shows "RingBufferStrategy_getEntries s = map Some (drop (length xs - C) xs)"
proof -
  let ?n = "length xs"
  from inv have f: "rb_maxSize s = C" "length (rb_buffer s) = C" "rb_head s = Some (?n mod C)"
    "rb_size s = min ?n C"
    and slots: "\<And>i. i < ?n \<Longrightarrow> ?n - i \<le> C \<Longrightarrow> rb_buffer s ! (i mod C) = Some (xs ! i)"
    by (simp_all add: rb_after_def)
  have slot: "js_slot (rb_buffer s) (int (i mod C)) = Some (xs ! i)"
    if "i < ?n" "?n - i \<le> C" for i
    using slots [OF that] f(2) C by (simp add: js_slot_def js_at_def)
  show ?thesis
  proof (cases "?n < C")
    case True
    have "RingBufferStrategy_getEntries s = map (\<lambda>i. Some (xs ! i)) [0..<?n]"
    proof (cases "?n = 0")
      case True
      then show ?thesis using f by (simp add: RingBufferStrategy_getEntries_def)
    next
      case False
      have "js_slot (rb_buffer s) (int i) = Some (xs ! i)" if "i < ?n" for i
        using slot [of i] that True by simp
      then show ?thesis
        using f True False by (simp add: RingBufferStrategy_getEntries_def min_def)
    qed
    also have "\<dots> = map Some xs" by (intro nth_equalityI) simp_all
    finally show ?thesis using True by simp
  next
    case False
    then have ge: "C \<le> ?n" by simp
    have each: "js_slot (rb_buffer s) (int ((?n mod C + i) mod C)) = Some (xs ! (?n - C + i))"
      if "i < C" for i
    proof -
      have "(?n mod C + i) mod C = (?n - C + i) mod C"
      proof -
        have "(?n - C + i) mod C = ((?n - C + i) + C) mod C" by simp
        also have "(?n - C + i) + C = ?n + i" using ge by simp
        finally show ?thesis by (simp add: mod_add_left_eq)
      qed
      moreover have "js_slot (rb_buffer s) (int ((?n - C + i) mod C)) = Some (xs ! (?n - C + i))"
        using that ge by (intro slot) linarith+
      ultimately show ?thesis by simp
    qed
    have sz: "rb_size s = C" using f(4) ge by (simp add: min_def)
    have "RingBufferStrategy_getEntries s =
        map (\<lambda>i. js_slot (rb_buffer s) (int ((?n mod C + i) mod C))) [0..<C]"
      using f(1,3) sz C by (simp add: RingBufferStrategy_getEntries_def)
    also have "\<dots> = map (\<lambda>i. Some (xs ! (?n - C + i))) [0..<C]"
      by (rule map_cong [OF refl]) (simp add: each)
    also have "\<dots> = map Some (drop (?n - C) xs)"
      using ge by (intro nth_equalityI) simp_all
    finally show ?thesis .
  qed
qed


lemma getSnapshot_of_entries:
  assumes "RingBufferStrategy_getEntries s = map Some ys"
  shows "RingBufferStrategy_getSnapshot s =
    Inr \<lparr>ws_entries = map Some ys,
         ws_startTime = (if ys = [] then 0 else timestamp (ys ! 0)),
         ws_endTime = (if ys = [] then 0 else timestamp (ys ! (length ys - 1))),
         ws_size = length ys, ws_totalPushed = rb_totalPushed s,
         ws_totalEvicted = rb_totalEvicted s\<rparr>"
  by (cases "ys = []") (simp_all add: RingBufferStrategy_getSnapshot_def assms slot_timestamp_def)

text \<open>
  C2. A ring buffer constructed with capacity \<open>c > 0\<close>, after \<open>c + k\<close> pushes with
  \<open>k \<ge> 1\<close>, retains exactly the last \<open>c\<close> entries pushed (the list without its first
  \<open>k\<close>), \<open>getEntries\<close> and the snapshot list them in the order of the pushes, and the
  evicted counter is \<open>k\<close>.
\<close>

theorem ring_buffer_keeps_last_capacity:
  assumes "RingBufferStrategy_new (Some c) = Inr s0" "0 < c" "length xs = nat c + k" "1 \<le> k"
  shows "RingBufferStrategy_getEntries (foldl RingBufferStrategy_push s0 xs) = map Some (drop k xs)
       \<and> length (drop k xs) = nat c
       \<and> rb_totalEvicted (foldl RingBufferStrategy_push s0 xs) = k
       \<and> RingBufferStrategy_getSnapshot (foldl RingBufferStrategy_push s0 xs) =
           Inr \<lparr>ws_entries = map Some (drop k xs),
                ws_startTime = timestamp (xs ! k),
                ws_endTime = timestamp (last xs),
                ws_size = nat c, ws_totalPushed = nat c + k, ws_totalEvicted = k\<rparr>"
proof -
  let ?s = "foldl RingBufferStrategy_push s0 xs"
  have C: "0 < nat c" using assms(2) by simp
  have inv: "rb_after (nat c) xs ?s"
    by (rule rb_after_pushes [OF C rb_after_fresh [OF assms(1,2)]])
  have k: "length xs - nat c = k" using assms(3) by simp
  have entries: "RingBufferStrategy_getEntries ?s = map Some (drop k xs)"
    using rb_after_getEntries [OF C inv] by (simp add: k)
  have len: "length (drop k xs) = nat c" using assms(3) by simp
  have ne: "drop k xs \<noteq> []" using len C by auto
  have ev: "rb_totalEvicted ?s = k" and pushed: "rb_totalPushed ?s = nat c + k"
    using inv assms(3) by (simp_all add: rb_after_def)
  have "xs \<noteq> []" using assms(3) C by auto
  then have "last xs = xs ! (length xs - 1)" by (rule last_conv_nth)
  then have last_nth: "last xs = xs ! (length xs - 1)" .
  have snap: "RingBufferStrategy_getSnapshot ?s =
           Inr \<lparr>ws_entries = map Some (drop k xs),
                ws_startTime = timestamp (xs ! k),
                ws_endTime = timestamp (last xs),
                ws_size = nat c, ws_totalPushed = nat c + k, ws_totalEvicted = k\<rparr>"
  proof -
    have l2: "length xs - k = nat c" using assms(3) by simp
    have "k + (nat c - Suc 0) = length xs - 1" using assms(3) C by simp
    then have l3: "xs ! (k + (nat c - Suc 0)) = last xs"
      using last_nth by simp
    show ?thesis
      unfolding getSnapshot_of_entries [OF entries] using ne by (simp add: l2 l3 ev pushed)
  qed
  from entries len ev snap show ?thesis by simp
qed

theorem ring_buffer_keeps_last_capacity_witness:
  "RingBufferStrategy_new (Some 3) = Inr ring3
   \<and> length four_latencies = nat 3 + 1
   \<and> RingBufferStrategy_getEntries (foldl RingBufferStrategy_push ring3 four_latencies)
       = [Some (sample ''A'' Latency 20 2), Some (sample ''A'' Latency 30 3),
          Some (sample ''A'' Latency 40 4)]
   \<and> rb_totalEvicted (foldl RingBufferStrategy_push ring3 four_latencies) = 1
   \<and> RingBufferStrategy_getSnapshot (foldl RingBufferStrategy_push ring3 four_latencies) =
           Inr \<lparr>ws_entries = [Some (sample ''A'' Latency 20 2), Some (sample ''A'' Latency 30 3),
                              Some (sample ''A'' Latency 40 4)],
                ws_startTime = 2, ws_endTime = 4,
                ws_size = 3, ws_totalPushed = 4, ws_totalEvicted = 1\<rparr>"
proof -
  have new: "RingBufferStrategy_new (Some 3) = Inr ring3"
    by (simp add: RingBufferStrategy_new_def new_Array_def ring3_def eval_nat_numeral)
  have len: "length four_latencies = nat 3 + 1" by (simp add: four_latencies_def)
  from ring_buffer_keeps_last_capacity [OF new _ len] new len
  show ?thesis by (simp add: four_latencies_def sample_def)
qed

lemma rb_ok_new:
  assumes "RingBufferStrategy_new cfg = Inr s0"
  shows "rb_ok s0"
  using assms
  by (auto simp: RingBufferStrategy_new_def new_Array_def rb_ok_def Let_def
      split: if_splits option.splits)

lemma rb_ok_clear: "rb_ok (RingBufferStrategy_clear s)"
  by (simp add: RingBufferStrategy_clear_def rb_ok_def)

lemma rb_maxSize_push [simp]: "rb_maxSize (RingBufferStrategy_push s e) = rb_maxSize s"
  by (simp add: RingBufferStrategy_push_def Let_def)

lemma rb_ok_push:
  assumes "rb_ok s"
  shows "rb_ok (RingBufferStrategy_push s e)"
proof (cases "0 < rb_maxSize s")
  case False
  with assms show ?thesis
    by (simp add: rb_ok_def RingBufferStrategy_push_def Let_def)
next
  case True
  with assms obtain h where
    bal: "rb_totalPushed s = rb_size s + rb_totalEvicted s" and le: "rb_size s \<le> rb_maxSize s"
    and len: "length (rb_buffer s) = rb_maxSize s"
    and h: "rb_head s = Some h" "h < rb_maxSize s" "rb_size s < rb_maxSize s \<longrightarrow> h = rb_size s"
    and full: "\<And>i. i < rb_size s \<Longrightarrow> rb_buffer s ! i \<noteq> None"
    by (auto simp: rb_ok_def)
  let ?s' = "RingBufferStrategy_push s e"
  have buf: "rb_buffer ?s' = (rb_buffer s)[h := Some e]"
    using h len by (simp add: RingBufferStrategy_push_def Let_def js_store_def)
  have hd: "rb_head ?s' = Some (Suc h mod rb_maxSize s)"
    using h True by (simp add: RingBufferStrategy_push_def Let_def)
  have sz: "rb_size ?s' = (if rb_size s < rb_maxSize s then Suc (rb_size s) else rb_size s)"
    and ev: "rb_totalEvicted ?s' = (if rb_size s < rb_maxSize s then rb_totalEvicted s
                                   else Suc (rb_totalEvicted s))"
    and pu: "rb_totalPushed ?s' = Suc (rb_totalPushed s)"
    by (simp_all add: RingBufferStrategy_push_def Let_def)
  have slots: "rb_buffer ?s' ! i \<noteq> None" if "i < rb_size ?s'" for i
  proof (cases "i = h")
    case True
    then show ?thesis using h(2) len by (simp add: buf)
  next
    case False
    with that h(3) have "i < rb_size s" by (auto simp: sz split: if_splits)
    then show ?thesis using False full by (simp add: buf)
  qed
  have head_ok: "Suc h mod rb_maxSize s < rb_maxSize s" using True by simp
  have head_size: "Suc h mod rb_maxSize s = rb_size ?s'" if "rb_size ?s' < rb_maxSize s"
    using that h(3) by (auto simp: sz split: if_splits)
  show ?thesis
    unfolding rb_ok_def
    using bal le len True hd head_ok head_size slots
    by (auto simp: sz ev pu buf)
qed

lemma rb_ok_call: "rb_ok s \<Longrightarrow> rb_ok (RingBufferStrategy_call s c)"
  by (cases "(s, c)" rule: RingBufferStrategy_call.cases) (simp_all add: rb_ok_push rb_ok_clear)

lemma rb_ok_calls: "rb_ok s \<Longrightarrow> rb_ok (foldl RingBufferStrategy_call s cs)"
  by (induction cs arbitrary: s) (simp_all add: rb_ok_call)

lemma rb_ok_pushes: "rb_ok s \<Longrightarrow> rb_ok (foldl RingBufferStrategy_push s xs)"
  by (induction xs arbitrary: s) (simp_all add: rb_ok_push)

lemma rb_ok_getEntries:
  assumes "rb_ok s"
  shows "\<exists>ys. RingBufferStrategy_getEntries s = map Some ys \<and> length ys = rb_size s"
proof (cases "rb_size s = 0")
  case True
  then show ?thesis by (simp add: RingBufferStrategy_getEntries_def)
next
  case False
  with assms have pos: "0 < rb_maxSize s" by (auto simp: rb_ok_def)
  with assms obtain h where le: "rb_size s \<le> rb_maxSize s"
    and len: "length (rb_buffer s) = rb_maxSize s"
    and h: "rb_head s = Some h"
    and full: "\<And>i. i < rb_size s \<Longrightarrow> rb_buffer s ! i \<noteq> None"
    by (auto simp: rb_ok_def)
  have slot: "js_slot (rb_buffer s) (int i) = Some (the (rb_buffer s ! i))" if "i < rb_size s" for i
    using full [OF that] that le len by (auto simp: js_slot_def js_at_def)
  show ?thesis
  proof (cases "rb_size s < rb_maxSize s")
    case True
    have "RingBufferStrategy_getEntries s = map (\<lambda>i. js_slot (rb_buffer s) (int i)) [0..<rb_size s]"
      using False True by (simp add: RingBufferStrategy_getEntries_def)
    also have "\<dots> = map (\<lambda>i. Some (the (rb_buffer s ! i))) [0..<rb_size s]"
      by (rule map_cong [OF refl]) (simp add: slot)
    also have "\<dots> = map Some (map (\<lambda>i. the (rb_buffer s ! i)) [0..<rb_size s])"
      by simp
    finally show ?thesis
      by (intro exI [of _ "map (\<lambda>i. the (rb_buffer s ! i)) [0..<rb_size s]"]) simp
  next
    case notless: False
    with le have eq: "rb_size s = rb_maxSize s" by simp
    let ?idx = "\<lambda>i. (h + i) mod rb_maxSize s"
    have "RingBufferStrategy_getEntries s =
        map (\<lambda>i. js_slot (rb_buffer s) (int (?idx i))) [0..<rb_maxSize s]"
      using False notless h by (simp add: RingBufferStrategy_getEntries_def)
    also have "\<dots> = map (\<lambda>i. Some (the (rb_buffer s ! ?idx i))) [0..<rb_maxSize s]"
    proof (rule map_cong [OF refl])
      fix i assume "i \<in> set [0..<rb_maxSize s]"
      have "?idx i < rb_size s" using pos eq by simp
      then show "js_slot (rb_buffer s) (int (?idx i)) = Some (the (rb_buffer s ! ?idx i))"
        by (rule slot)
    qed
    also have "\<dots> = map Some (map (\<lambda>i. the (rb_buffer s ! ?idx i)) [0..<rb_maxSize s])"
      by simp
    finally show ?thesis using eq
      by (intro exI [of _ "map (\<lambda>i. the (rb_buffer s ! ?idx i)) [0..<rb_maxSize s]"]) simp
  qed
qed

lemma rb_ok_getSnapshot:
  assumes "rb_ok s"
  shows "\<exists>snap. RingBufferStrategy_getSnapshot s = Inr snap
           \<and> ws_size snap = rb_size s
           \<and> ws_totalPushed snap = rb_totalPushed s
           \<and> ws_totalEvicted snap = rb_totalEvicted s
           \<and> ws_totalPushed snap = ws_size snap + ws_totalEvicted snap"
proof -
  from rb_ok_getEntries [OF assms] obtain ys
    where ys: "RingBufferStrategy_getEntries s = map Some ys" "length ys = rb_size s" by blast
  have "rb_totalPushed s = rb_size s + rb_totalEvicted s" using assms by (simp add: rb_ok_def)
  then show ?thesis
    unfolding getSnapshot_of_entries [OF ys(1)] using ys(2) by simp
qed

section \<open>Properties of the sliding window\<close>

lemma evictStale_entries:
  "sw_entries (evictStale s r now) =
     filter (\<lambda>e. timestamp e \<ge> (case r of Some t \<Rightarrow> t | None \<Rightarrow> now) - sw_windowMs s) (sw_entries s)"
  by (simp add: evictStale_def Let_def)

lemma evictStale_unfold:
  "evictStale s r now =
     s\<lparr>sw_entries :=
         filter (\<lambda>e. timestamp e \<ge> (case r of Some t \<Rightarrow> t | None \<Rightarrow> now) - sw_windowMs s)
           (sw_entries s),
       sw_totalEvicted :=
         sw_totalEvicted s
         + (length (sw_entries s)
            - length (filter (\<lambda>e. timestamp e \<ge> (case r of Some t \<Rightarrow> t | None \<Rightarrow> now)
                                   - sw_windowMs s) (sw_entries s)))\<rparr>"
  by (simp add: evictStale_def Let_def)

lemma length_removed:
  fixes c :: int
  shows "length xs - length (filter (\<lambda>e. timestamp e \<ge> c) xs)
       = length (filter (\<lambda>e. timestamp e < c) xs)"
proof -
  have "length (filter (\<lambda>e. timestamp e \<ge> c) xs)
        + length (filter (\<lambda>e. \<not> timestamp e \<ge> c) xs) = length xs"
    by (rule sum_length_filter_compl)
  moreover have "(\<lambda>e::'a MetricEntry_scheme. \<not> timestamp e \<ge> c) = (\<lambda>e. timestamp e < c)"
    by (auto simp: not_le)
  ultimately show ?thesis by simp
qed

lemma evictStale_evicted:
  "sw_totalEvicted (evictStale s r now) =
     sw_totalEvicted s
     + length (filter (\<lambda>e. timestamp e < (case r of Some t \<Rightarrow> t | None \<Rightarrow> now) - sw_windowMs s)
         (sw_entries s))"
  unfolding evictStale_unfold length_removed by simp

lemma evictStale_reference: "evictStale s (Some r) now = evictStale s (Some r) now'"
  by (simp add: evictStale_unfold)

lemma evictStale_frame [simp]:
  "sw_totalPushed (evictStale s r now) = sw_totalPushed s"
  "sw_windowMs (evictStale s r now) = sw_windowMs s"
  by (simp_all add: evictStale_def Let_def)

lemma sw_ok_evictStale: "sw_ok s \<Longrightarrow> sw_ok (evictStale s r now)"
proof -
  assume ok: "sw_ok s"
  let ?c = "(case r of Some t \<Rightarrow> t | None \<Rightarrow> now) - sw_windowMs s"
  let ?kept = "filter (\<lambda>e. timestamp e \<ge> ?c) (sw_entries s)"
  have "length ?kept \<le> length (sw_entries s)" by (rule length_filter_le)
  then have "length ?kept + (sw_totalEvicted s + (length (sw_entries s) - length ?kept))
      = length (sw_entries s) + sw_totalEvicted s" by linarith
  with ok show ?thesis unfolding sw_ok_def evictStale_unfold by simp
qed

lemma sw_ok_new: "sw_ok (SlidingWindowStrategy_new cfg)"
  by (simp add: sw_ok_def SlidingWindowStrategy_new_def)

lemma sw_ok_clear: "sw_ok (SlidingWindowStrategy_clear s)"
  by (simp add: sw_ok_def SlidingWindowStrategy_clear_def)

lemma sw_ok_push: "sw_ok s \<Longrightarrow> sw_ok (SlidingWindowStrategy_push s e)"
  unfolding SlidingWindowStrategy_push_def Let_def
  by (rule sw_ok_evictStale) (simp add: sw_ok_def)

lemma sw_ok_call: "sw_ok s \<Longrightarrow> sw_ok (SlidingWindowStrategy_call s c)"
  by (cases "(s, c)" rule: SlidingWindowStrategy_call.cases)
     (simp_all add: sw_ok_push sw_ok_clear sw_ok_evictStale
        SlidingWindowStrategy_getPercentiles_def SlidingWindowStrategy_getStagePercentiles_def
        SlidingWindowStrategy_getSnapshot_def SlidingWindowStrategy_getMetricResult_def
        SlidingWindowStrategy_getSize_def Let_def)

lemma sw_ok_calls: "sw_ok s \<Longrightarrow> sw_ok (foldl SlidingWindowStrategy_call s cs)"
  by (induction cs arbitrary: s) (simp_all add: sw_ok_call)

lemma sw_ok_getSnapshot:
  assumes "sw_ok s"
  shows "ws_totalPushed (fst (SlidingWindowStrategy_getSnapshot s now))
       = ws_size (fst (SlidingWindowStrategy_getSnapshot s now))
         + ws_totalEvicted (fst (SlidingWindowStrategy_getSnapshot s now))"
  using sw_ok_evictStale [OF assms, of None now]
  by (simp add: SlidingWindowStrategy_getSnapshot_def Let_def sw_ok_def)

lemma sliding_push_unfold:
  "SlidingWindowStrategy_push s e =
     evictStale (s\<lparr>sw_totalPushed := sw_totalPushed s + 1, sw_entries := sw_entries s @ [e]\<rparr>)
       (Some (timestamp e)) now"
  unfolding SlidingWindowStrategy_push_def Let_def
  by (subst evictStale_reference [of _ _ _ now]) simp

lemma sliding_first_evicted:
  assumes "timestamp a = 0" "timestamp b = sw_windowMs (SlidingWindowStrategy_new cfg) + 1"
  shows "a \<notin> set (sw_entries (SlidingWindowStrategy_push
            (SlidingWindowStrategy_push (SlidingWindowStrategy_new cfg) a) b))"
  using assms
  by (auto simp: SlidingWindowStrategy_push_def evictStale_entries Let_def
      SlidingWindowStrategy_new_def split: option.splits)

lemma evictStale_subset: "set (sw_entries (evictStale s r now)) \<subseteq> set (sw_entries s)"
  by (auto simp: evictStale_entries)

text \<open>
  C4. An eviction pass of the sliding window with reference \<open>r\<close> keeps, in their order,
  exactly the entries whose timestamp is not older than \<open>r - windowMs\<close>, and adds the
  number of the removed ones to the evicted counter; \<open>push\<close> appends the entry and runs
  the pass with the entry's timestamp as the reference. After a push at time 0 and a
  push at time \<open>windowMs + 1\<close> into a new window, the first entry is neither retained
  nor in the snapshot, whatever the clock reads; with \<open>windowMs \<ge> 0\<close> the second is
  the only entry retained.
\<close>

theorem sliding_eviction_pass:
  "sw_entries (evictStale s (Some r) now)
      = filter (\<lambda>e. \<not> timestamp e < r - sw_windowMs s) (sw_entries s)
   \<and> sw_totalEvicted (evictStale s (Some r) now)
      = sw_totalEvicted s
        + length (filter (\<lambda>e. timestamp e < r - sw_windowMs s) (sw_entries s))
   \<and> SlidingWindowStrategy_push s e
      = evictStale (s\<lparr>sw_totalPushed := sw_totalPushed s + 1, sw_entries := sw_entries s @ [e]\<rparr>)
          (Some (timestamp e)) now
   \<and> (timestamp a = 0 \<and> timestamp b = sw_windowMs (SlidingWindowStrategy_new cfg) + 1 \<longrightarrow>
        a \<notin> set (sw_entries (SlidingWindowStrategy_push
                  (SlidingWindowStrategy_push (SlidingWindowStrategy_new cfg) a) b))
        \<and> a \<notin> set (ws_entries (fst (SlidingWindowStrategy_getSnapshot
                  (SlidingWindowStrategy_push
                    (SlidingWindowStrategy_push (SlidingWindowStrategy_new cfg) a) b) now)))
        \<and> (0 \<le> sw_windowMs (SlidingWindowStrategy_new cfg) \<longrightarrow>
              sw_entries (SlidingWindowStrategy_push
                (SlidingWindowStrategy_push (SlidingWindowStrategy_new cfg) a) b) = [b]
              \<and> sw_totalEvicted (SlidingWindowStrategy_push
                (SlidingWindowStrategy_push (SlidingWindowStrategy_new cfg) a) b) = 1))"
proof (intro conjI impI)
  show "sw_entries (evictStale s (Some r) now)
      = filter (\<lambda>e. \<not> timestamp e < r - sw_windowMs s) (sw_entries s)"
    by (simp add: evictStale_entries not_less)
  show "sw_totalEvicted (evictStale s (Some r) now)
      = sw_totalEvicted s
        + length (filter (\<lambda>e. timestamp e < r - sw_windowMs s) (sw_entries s))"
    by (simp add: evictStale_evicted)
  show "SlidingWindowStrategy_push s e
      = evictStale (s\<lparr>sw_totalPushed := sw_totalPushed s + 1, sw_entries := sw_entries s @ [e]\<rparr>)
          (Some (timestamp e)) now"
    by (rule sliding_push_unfold)
next
  let ?s2 = "SlidingWindowStrategy_push
               (SlidingWindowStrategy_push (SlidingWindowStrategy_new cfg) a) b"
  assume ts: "timestamp a = 0 \<and> timestamp b = sw_windowMs (SlidingWindowStrategy_new cfg) + 1"
  then show gone: "a \<notin> set (sw_entries ?s2)"
    by (intro sliding_first_evicted) simp_all
  have "set (ws_entries (fst (SlidingWindowStrategy_getSnapshot ?s2 now))) \<subseteq> set (sw_entries ?s2)"
    using evictStale_subset [of ?s2 None now]
    by (simp add: SlidingWindowStrategy_getSnapshot_def Let_def)
  with gone show "a \<notin> set (ws_entries (fst (SlidingWindowStrategy_getSnapshot ?s2 now)))"
    by blast
next
  assume ts: "timestamp a = 0 \<and> timestamp b = sw_windowMs (SlidingWindowStrategy_new cfg) + 1"
    and w: "0 \<le> sw_windowMs (SlidingWindowStrategy_new cfg)"
  then show "sw_entries (SlidingWindowStrategy_push
                (SlidingWindowStrategy_push (SlidingWindowStrategy_new cfg) a) b) = [b]"
    by (simp add: SlidingWindowStrategy_push_def evictStale_unfold Let_def SlidingWindowStrategy_new_def)
  from ts w show "sw_totalEvicted (SlidingWindowStrategy_push
                (SlidingWindowStrategy_push (SlidingWindowStrategy_new cfg) a) b) = 1"
    by (simp add: SlidingWindowStrategy_push_def evictStale_unfold Let_def SlidingWindowStrategy_new_def)
qed

theorem sliding_eviction_pass_witness:
  "timestamp (sample ''A'' Latency 5 0) = 0
   \<and> timestamp (sample ''A'' Latency 7 11) = sw_windowMs (SlidingWindowStrategy_new (Some 10)) + 1
   \<and> 0 \<le> sw_windowMs (SlidingWindowStrategy_new (Some 10))
   \<and> sw_entries (SlidingWindowStrategy_push
        (SlidingWindowStrategy_push (SlidingWindowStrategy_new (Some 10)) (sample ''A'' Latency 5 0))
        (sample ''A'' Latency 7 11)) = [sample ''A'' Latency 7 11]
   \<and> ws_entries (fst (SlidingWindowStrategy_getSnapshot (SlidingWindowStrategy_push
        (SlidingWindowStrategy_push (SlidingWindowStrategy_new (Some 10)) (sample ''A'' Latency 5 0))
        (sample ''A'' Latency 7 11)) 12)) = [sample ''A'' Latency 7 11]
   \<and> sample ''A'' Latency 5 0 \<notin> set (ws_entries (fst (SlidingWindowStrategy_getSnapshot
        (SlidingWindowStrategy_push
          (SlidingWindowStrategy_push (SlidingWindowStrategy_new (Some 10)) (sample ''A'' Latency 5 0))
          (sample ''A'' Latency 7 11)) 12)))"
  using sliding_eviction_pass [where a = "sample ''A'' Latency 5 0" and b = "sample ''A'' Latency 7 11"
      and cfg = "Some 10" and now = 12]
  by (simp add: sample_def SlidingWindowStrategy_new_def SlidingWindowStrategy_push_def
      SlidingWindowStrategy_getSnapshot_def evictStale_def Let_def)

section \<open>Construction and counters\<close>

lemma rb_zero_capacity:
  assumes "rb_ok s" "rb_maxSize s = 0"
  shows "RingBufferStrategy_getEntries s = []" "rb_totalEvicted s = rb_totalPushed s"
  using assms by (simp_all add: rb_ok_def RingBufferStrategy_getEntries_def)

lemma rb_pushes_frame:
  "rb_maxSize (foldl RingBufferStrategy_push s xs) = rb_maxSize s"
  by (induction xs arbitrary: s) simp_all

lemma rb_pushes_total:
  "rb_totalPushed (foldl RingBufferStrategy_push s xs) = rb_totalPushed s + length xs"
  by (induction xs arbitrary: s) (simp_all add: RingBufferStrategy_push_def Let_def)

text \<open>
  C8, as the code has it. The constructor has no check of its own. A negative capacity
  fails with the RangeError of the array allocation. The capacity 0 is accepted: the
  constructor returns a strategy, which takes any number of pushes, retains none of the
  entries and counts each of them as pushed and as evicted.
\<close>

theorem ring_buffer_constructor_capacity:
  "(c < 0 \<longrightarrow> RingBufferStrategy_new (Some c) = Inl RangeError)
   \<and> RingBufferStrategy_new (Some 0) = Inr ring0
   \<and> RingBufferStrategy_getEntries (foldl RingBufferStrategy_push ring0 xs) = []
   \<and> rb_totalPushed (foldl RingBufferStrategy_push ring0 xs) = length xs
   \<and> rb_totalEvicted (foldl RingBufferStrategy_push ring0 xs) = length xs"
proof -
  have new0: "RingBufferStrategy_new (Some 0) = Inr ring0"
    by (simp add: RingBufferStrategy_new_def new_Array_def ring0_def)
  let ?s = "foldl RingBufferStrategy_push ring0 xs"
  have ok: "rb_ok ?s" by (rule rb_ok_pushes [OF rb_ok_new [OF new0]])
  have cap: "rb_maxSize ?s = 0" by (simp add: rb_pushes_frame ring0_def)
  have total: "rb_totalPushed ?s = length xs" by (simp add: rb_pushes_total ring0_def)
  have neg: "c < 0 \<longrightarrow> RingBufferStrategy_new (Some c) = Inl RangeError"
    by (simp add: RingBufferStrategy_new_def new_Array_def)
  from neg new0 rb_zero_capacity [OF ok cap] total show ?thesis by simp
qed

theorem ring_buffer_constructor_capacity_witness:
  "(-1 :: int) < 0 \<and> RingBufferStrategy_new (Some (-1)) = Inl RangeError
   \<and> RingBufferStrategy_getEntries (foldl RingBufferStrategy_push ring0 four_latencies) = []
   \<and> rb_totalEvicted (foldl RingBufferStrategy_push ring0 four_latencies) = 4"
  using ring_buffer_constructor_capacity [of "-1" four_latencies]
  by (simp add: four_latencies_def)

text \<open>
  C8 as stated fails at capacity 0: the constructor returns a strategy, and that strategy
  accepts a push and answers a snapshot query.
\<close>

theorem ring_buffer_zero_capacity_accepted:
  "RingBufferStrategy_new (Some 0) = Inr ring0
   \<and> RingBufferStrategy_getSnapshot (RingBufferStrategy_push ring0 (sample ''A'' Latency 10 1))
       = Inr \<lparr>ws_entries = [], ws_startTime = 0, ws_endTime = 0, ws_size = 0,
              ws_totalPushed = 1, ws_totalEvicted = 1\<rparr>"
  by (simp add: RingBufferStrategy_new_def new_Array_def ring0_def RingBufferStrategy_push_def
      RingBufferStrategy_getSnapshot_def RingBufferStrategy_getEntries_def js_store_def Let_def)

text \<open>
  C10. From a ring buffer the constructor returned, and from a new sliding window, after
  any sequence of calls of the interface (pushes, queries with any clock readings, and
  clears), the snapshot satisfies \<open>totalPushed = size + totalEvicted\<close>. \<open>clear\<close> sets the
  size and both counters to 0 in any state, and the snapshot taken after it shows 0 for
  all three.
\<close>

theorem counters_balance:
  "(RingBufferStrategy_new cfg = Inr r0 \<longrightarrow>
      (\<exists>snap. RingBufferStrategy_getSnapshot (foldl RingBufferStrategy_call r0 cs) = Inr snap
          \<and> ws_totalPushed snap = ws_size snap + ws_totalEvicted snap))
   \<and> ws_totalPushed (fst (SlidingWindowStrategy_getSnapshot
          (foldl SlidingWindowStrategy_call (SlidingWindowStrategy_new wcfg) cs) now))
      = ws_size (fst (SlidingWindowStrategy_getSnapshot
          (foldl SlidingWindowStrategy_call (SlidingWindowStrategy_new wcfg) cs) now))
        + ws_totalEvicted (fst (SlidingWindowStrategy_getSnapshot
          (foldl SlidingWindowStrategy_call (SlidingWindowStrategy_new wcfg) cs) now))
   \<and> rb_size (RingBufferStrategy_clear r) = 0
   \<and> rb_totalPushed (RingBufferStrategy_clear r) = 0
   \<and> rb_totalEvicted (RingBufferStrategy_clear r) = 0
   \<and> RingBufferStrategy_getSnapshot (RingBufferStrategy_clear r)
      = Inr \<lparr>ws_entries = [], ws_startTime = 0, ws_endTime = 0, ws_size = 0,
             ws_totalPushed = 0, ws_totalEvicted = 0\<rparr>
   \<and> sw_entries (SlidingWindowStrategy_clear w) = []
   \<and> sw_totalPushed (SlidingWindowStrategy_clear w) = 0
   \<and> sw_totalEvicted (SlidingWindowStrategy_clear w) = 0
   \<and> fst (SlidingWindowStrategy_getSnapshot (SlidingWindowStrategy_clear w) now)
      = \<lparr>ws_entries = [], ws_startTime = now - sw_windowMs w, ws_endTime = now, ws_size = 0,
         ws_totalPushed = 0, ws_totalEvicted = 0\<rparr>"
proof (intro conjI impI)
  assume "RingBufferStrategy_new cfg = Inr r0"
  then have "rb_ok (foldl RingBufferStrategy_call r0 cs)"
    by (intro rb_ok_calls rb_ok_new)
  then show "\<exists>snap. RingBufferStrategy_getSnapshot (foldl RingBufferStrategy_call r0 cs) = Inr snap
          \<and> ws_totalPushed snap = ws_size snap + ws_totalEvicted snap"
    using rb_ok_getSnapshot by blast
next
  show "ws_totalPushed (fst (SlidingWindowStrategy_getSnapshot
          (foldl SlidingWindowStrategy_call (SlidingWindowStrategy_new wcfg) cs) now))
      = ws_size (fst (SlidingWindowStrategy_getSnapshot
          (foldl SlidingWindowStrategy_call (SlidingWindowStrategy_new wcfg) cs) now))
        + ws_totalEvicted (fst (SlidingWindowStrategy_getSnapshot
          (foldl SlidingWindowStrategy_call (SlidingWindowStrategy_new wcfg) cs) now))"
    by (intro sw_ok_getSnapshot sw_ok_calls sw_ok_new)
next
  show "RingBufferStrategy_getSnapshot (RingBufferStrategy_clear r)
      = Inr \<lparr>ws_entries = [], ws_startTime = 0, ws_endTime = 0, ws_size = 0,
             ws_totalPushed = 0, ws_totalEvicted = 0\<rparr>"
    by (simp add: RingBufferStrategy_getSnapshot_def RingBufferStrategy_getEntries_def
        RingBufferStrategy_clear_def)
next
  show "fst (SlidingWindowStrategy_getSnapshot (SlidingWindowStrategy_clear w) now)
      = \<lparr>ws_entries = [], ws_startTime = now - sw_windowMs w, ws_endTime = now, ws_size = 0,
         ws_totalPushed = 0, ws_totalEvicted = 0\<rparr>"
    by (simp add: SlidingWindowStrategy_getSnapshot_def SlidingWindowStrategy_clear_def
        evictStale_unfold Let_def)
qed (simp_all add: RingBufferStrategy_clear_def SlidingWindowStrategy_clear_def)

theorem counters_balance_witness:
  "RingBufferStrategy_new (Some 3) = Inr ring3
   \<and> RingBufferStrategy_getSnapshot (foldl RingBufferStrategy_call ring3 mixed_calls)
      = Inr \<lparr>ws_entries = [Some (sample ''A'' Latency 20 2), Some (sample ''B'' ErrorCount 1 30),
                            Some (sample ''A'' Latency 40 50)],
             ws_startTime = 2, ws_endTime = 50, ws_size = 3,
             ws_totalPushed = 4, ws_totalEvicted = 1\<rparr>
   \<and> fst (SlidingWindowStrategy_getSnapshot
        (foldl SlidingWindowStrategy_call (SlidingWindowStrategy_new (Some 10)) mixed_calls) 55)
      = \<lparr>ws_entries = [sample ''A'' Latency 40 50], ws_startTime = 45, ws_endTime = 55,
         ws_size = 1, ws_totalPushed = 4, ws_totalEvicted = 3\<rparr>"
proof -
  have new: "RingBufferStrategy_new (Some 3) = Inr ring3"
    by (simp add: RingBufferStrategy_new_def new_Array_def ring3_def eval_nat_numeral)
  have rb: "RingBufferStrategy_getSnapshot (foldl RingBufferStrategy_call ring3 mixed_calls)
      = Inr \<lparr>ws_entries = [Some (sample ''A'' Latency 20 2), Some (sample ''B'' ErrorCount 1 30),
                            Some (sample ''A'' Latency 40 50)],
             ws_startTime = 2, ws_endTime = 50, ws_size = 3,
             ws_totalPushed = 4, ws_totalEvicted = 1\<rparr>"
    by (simp add: mixed_calls_def ring3_def sample_def RingBufferStrategy_push_def
        RingBufferStrategy_getSnapshot_def RingBufferStrategy_getEntries_def js_store_def
        js_slot_def js_at_def slot_timestamp_def Let_def upt_conv_Cons)
  have sw: "fst (SlidingWindowStrategy_getSnapshot
        (foldl SlidingWindowStrategy_call (SlidingWindowStrategy_new (Some 10)) mixed_calls) 55)
      = \<lparr>ws_entries = [sample ''A'' Latency 40 50], ws_startTime = 45, ws_endTime = 55,
         ws_size = 1, ws_totalPushed = 4, ws_totalEvicted = 3\<rparr>"
    by (simp add: mixed_calls_def sample_def SlidingWindowStrategy_new_def
        SlidingWindowStrategy_push_def SlidingWindowStrategy_getSnapshot_def
        SlidingWindowStrategy_getSize_def evictStale_def Let_def)
  from counters_balance [of "Some 3" ring3 mixed_calls "Some 10" 55] new rb sw
  show ?thesis by simp
qed

section \<open>Properties of the tumbling window\<close>

declare skip_windows.simps [simp del]

lemma no_window_skipped:
  fixes w x :: int
  assumes "0 < w" "nat (x div w) = 0"
  shows "x < w"
proof (rule ccontr)
  assume "\<not> x < w"
  then have "w div w \<le> x div w" using assms(1) by (intro zdiv_mono1) simp_all
  then show False using assms by simp
qed

lemma one_window_skipped:
  fixes w x :: int
  assumes "0 < w" "nat (x div w) = Suc n"
  shows "w \<le> x" "nat ((x - w) div w) = n"
proof -
  show "w \<le> x"
  proof (rule ccontr)
    assume "\<not> w \<le> x"
    then have "x div w \<le> (w - 1) div w" using assms(1) by (intro zdiv_mono1) simp_all
    moreover have "(w - 1) div w = 0" using assms(1) by (intro div_pos_pos_trivial) simp_all
    ultimately show False using assms(2) by simp
  qed
  have "(x - w + w) div w = (x - w) div w + 1" using assms(1) by (intro div_add_self2) simp
  then show "nat ((x - w) div w) = n" using assms(2) by simp
qed

lemma window_contains:
  fixes w x :: int
  assumes "0 < w" "0 \<le> x"
  shows "int (nat (x div w)) * w \<le> x" "x < int (nat (x div w)) * w + w"
proof -
  have nn: "0 \<le> x div w" using assms by (simp add: pos_imp_zdiv_nonneg_iff)
  have m: "0 \<le> x mod w" "x mod w < w" using assms(1) by simp_all
  have c: "(x div w) * w = w * (x div w)" by (rule mult.commute)
  have "(x div w) * w \<le> x" unfolding c using mult_div_mod_eq [of w x] m(1) by linarith
  then show "int (nat (x div w)) * w \<le> x" using nn by simp
  have "x < (x div w) * w + w" unfolding c using mult_div_mod_eq [of w x] m(2) by linarith
  then show "x < int (nat (x div w)) * w + w" using nn by simp
qed

lemma keep_last_append: "keep_last m (keep_last m xs @ ys) = keep_last m (xs @ ys)"
  by (cases "length xs \<le> m") (simp_all add: keep_last_def add.commute)

lemma keep_last_short: "length xs \<le> m \<Longrightarrow> keep_last m xs = xs"
  by (simp add: keep_last_def)

lemma length_keep_last: "length (keep_last m xs) \<le> m"
  by (simp add: keep_last_def)

lemma length_keep_last_int:
  "0 \<le> (m::int) \<Longrightarrow> int (length (keep_last (nat m) xs)) \<le> m"
  using length_keep_last [of "nat m" xs] by linarith

lemma evict_archived_keeps_last:
  assumes "0 \<le> maxb"
  shows "\<exists>ev'. evict_archived maxb xs ev = Some (keep_last (nat maxb) xs, ev')"
proof (induction xs arbitrary: ev)
  case Nil
  show ?case using assms by (simp add: keep_last_def)
next
  case (Cons b bs)
  show ?case
  proof (cases "int (length (b # bs)) > maxb")
    case True
    then have "keep_last (nat maxb) (b # bs) = keep_last (nat maxb) bs"
      using assms by (simp add: keep_last_def Suc_diff_le)
    with True Cons [of "ev + length (mb_entries b)"] show ?thesis by simp
  next
    case False
    then have "keep_last (nat maxb) (b # bs) = b # bs"
      using assms by (simp add: keep_last_def)
    with False show ?thesis by simp
  qed
qed

lemma computePercentiles_Nil:
  "computePercentiles [] m =
     \<lparr>pr_min = 0, pr_max = 0, p50 = 0, p95 = 0, p99 = 0, mean = 0, count = 0\<rparr>"
  by (simp add: computePercentiles_def zero_percentiles_def)

lemma archiveBucket_archives:
  assumes "0 \<le> tw_maxArchivedBuckets s"
  shows "\<exists>s1. archiveBucket s es a b = Some s1
     \<and> tw_archivedBuckets s1 =
         keep_last (nat (tw_maxArchivedBuckets s))
           (tw_archivedBuckets s @ [\<lparr>mb_entries = es, mb_startTime = a, mb_endTime = b,
                                      mb_percentiles = computePercentiles es Latency\<rparr>])"
proof -
  from evict_archived_keeps_last [OF assms] obtain ev' where
    "evict_archived (tw_maxArchivedBuckets s)
       (tw_archivedBuckets s @ [\<lparr>mb_entries = es, mb_startTime = a, mb_endTime = b,
                                  mb_percentiles = computePercentiles es Latency\<rparr>])
       (tw_totalEvicted s)
     = Some (keep_last (nat (tw_maxArchivedBuckets s))
         (tw_archivedBuckets s @ [\<lparr>mb_entries = es, mb_startTime = a, mb_endTime = b,
                                  mb_percentiles = computePercentiles es Latency\<rparr>]), ev')"
    by blast
  then show ?thesis by (simp add: archiveBucket_def Let_def)
qed

lemma skip_windows_archives:
  assumes "0 < tw_windowMs s" "0 \<le> tw_maxArchivedBuckets s"
    and "n = nat ((ts - tw_bucketStartTime s) div tw_windowMs s)"
  shows "\<exists>s'. skip_windows s ts = Some s'
     \<and> keep_last (nat (tw_maxArchivedBuckets s)) (tw_archivedBuckets s') =
         keep_last (nat (tw_maxArchivedBuckets s))
           (tw_archivedBuckets s @ empty_buckets (tw_bucketStartTime s) (tw_windowMs s) n)
     \<and> (0 < n \<longrightarrow> int (length (tw_archivedBuckets s')) \<le> tw_maxArchivedBuckets s)
     \<and> (n = 0 \<longrightarrow> tw_archivedBuckets s' = tw_archivedBuckets s)
     \<and> tw_bucketStartTime s' = tw_bucketStartTime s + int n * tw_windowMs s
     \<and> tw_currentBucket s' = tw_currentBucket s
     \<and> tw_windowMs s' = tw_windowMs s
     \<and> tw_maxArchivedBuckets s' = tw_maxArchivedBuckets s
     \<and> tw_totalPushed s' = tw_totalPushed s"
  using assms
proof (induction n arbitrary: s)
  case 0
  from no_window_skipped [OF "0.prems"(1) "0.prems"(3) [symmetric]]
  have "\<not> ts \<ge> tw_bucketStartTime s + tw_windowMs s" by simp
  then have "skip_windows s ts = Some s" by (subst skip_windows.simps) simp
  then show ?case by simp
next
  case (Suc n)
  let ?w = "tw_windowMs s" and ?st = "tw_bucketStartTime s" and ?m = "nat (tw_maxArchivedBuckets s)"
  note step = one_window_skipped [OF Suc.prems(1) Suc.prems(3) [symmetric]]
  from archiveBucket_archives [OF Suc.prems(2), of "[]" ?st "?st + ?w"] obtain s1 where
    s1: "archiveBucket s [] ?st (?st + ?w) = Some s1"
    and arch1: "tw_archivedBuckets s1 = keep_last ?m (tw_archivedBuckets s @ [empty_bucket ?st (?st + ?w)])"
    by (auto simp: empty_bucket_def computePercentiles_Nil)
  note f = archiveBucket_frame [OF s1]
  let ?s2 = "s1\<lparr>tw_bucketStartTime := tw_bucketStartTime s1 + tw_windowMs s1\<rparr>"
  have unfold: "skip_windows s ts = skip_windows ?s2 ts"
    using step(1) Suc.prems(1) s1 by (subst skip_windows.simps) simp
  have n: "n = nat ((ts - tw_bucketStartTime ?s2) div tw_windowMs ?s2)"
    using step(2) by (simp add: f algebra_simps)
  from Suc.IH [of ?s2, OF _ _ n] Suc.prems(1,2) obtain s' where
    r: "skip_windows ?s2 ts = Some s'"
    and a: "keep_last ?m (tw_archivedBuckets s') =
         keep_last ?m (tw_archivedBuckets s1 @ empty_buckets (?st + ?w) ?w n)"
    and l: "0 < n \<longrightarrow> int (length (tw_archivedBuckets s')) \<le> tw_maxArchivedBuckets s"
    and z: "n = 0 \<longrightarrow> tw_archivedBuckets s' = tw_archivedBuckets s1"
    and rest: "tw_bucketStartTime s' = ?st + ?w + int n * ?w"
      "tw_currentBucket s' = tw_currentBucket s" "tw_windowMs s' = ?w"
      "tw_maxArchivedBuckets s' = tw_maxArchivedBuckets s" "tw_totalPushed s' = tw_totalPushed s"
    by (auto simp: f)
  have "keep_last ?m (tw_archivedBuckets s') =
        keep_last ?m (tw_archivedBuckets s @ empty_buckets ?st ?w (Suc n))"
    unfolding a arch1 keep_last_append by simp
  moreover have "int (length (tw_archivedBuckets s')) \<le> tw_maxArchivedBuckets s"
  proof (cases "n = 0")
    case True
    with z have "tw_archivedBuckets s' = tw_archivedBuckets s1" by simp
    then show ?thesis unfolding arch1 by (simp only: length_keep_last_int [OF Suc.prems(2)])
  next
    case False
    with l show ?thesis by simp
  qed
  moreover have "tw_bucketStartTime s' = ?st + int (Suc n) * ?w"
    using rest(1) by (simp add: algebra_simps)
  ultimately show ?case using r rest(2-) by (simp add: unfold)
qed

lemma contiguous_empty_buckets: "contiguous (empty_buckets start w n)"
proof (induction n arbitrary: start)
  case 0
  show ?case by simp
next
  case (Suc n)
  show ?case using Suc [of "start + w"] by (cases n) (simp_all add: empty_bucket_def)
qed

lemma contiguous_closed_then_empty:
  "contiguous (closed_bucket s endTime @ empty_buckets endTime w n)"
proof (cases "tw_currentBucket s = []")
  case True
  then show ?thesis by (simp add: closed_bucket_def contiguous_empty_buckets)
next
  case False
  then show ?thesis
    using contiguous_empty_buckets [of endTime w n]
    by (cases n) (simp_all add: closed_bucket_def empty_bucket_def)
qed

lemma closeBucket_archives:
  assumes "tw_ok s"
  shows "\<exists>s2. closeBucket s endTime = Some s2
     \<and> tw_archivedBuckets s2 =
         keep_last (nat (tw_maxArchivedBuckets s)) (tw_archivedBuckets s @ closed_bucket s endTime)
     \<and> tw_currentBucket s2 = []
     \<and> tw_bucketStartTime s2 = tw_bucketStartTime s
     \<and> tw_windowMs s2 = tw_windowMs s
     \<and> tw_maxArchivedBuckets s2 = tw_maxArchivedBuckets s
     \<and> tw_totalPushed s2 = tw_totalPushed s"
proof (cases "tw_currentBucket s = []")
  case True
  have "keep_last (nat (tw_maxArchivedBuckets s)) (tw_archivedBuckets s) = tw_archivedBuckets s"
    using assms by (intro keep_last_short) (auto simp: tw_ok_def)
  with True show ?thesis by (simp add: closeBucket_def closed_bucket_def)
next
  case False
  from assms have "0 \<le> tw_maxArchivedBuckets s" by (simp add: tw_ok_def)
  from archiveBucket_archives [OF this, of "tw_currentBucket s" "tw_bucketStartTime s" endTime]
  obtain s1 where s1: "archiveBucket s (tw_currentBucket s) (tw_bucketStartTime s) endTime = Some s1"
    and a: "tw_archivedBuckets s1 =
         keep_last (nat (tw_maxArchivedBuckets s)) (tw_archivedBuckets s @ closed_bucket s endTime)"
    using False by (auto simp: closed_bucket_def)
  note f = archiveBucket_frame [OF s1]
  show ?thesis using False s1 a f by (simp add: closeBucket_def)
qed

lemma tw_ok_new:
  assumes "0 < w" "0 \<le> m"
  shows "tw_ok (TumblingWindowStrategy_new (Some w) (Some m) now)"
    and "tw_ok (TumblingWindowStrategy_new (Some w) None now)"
    and "tw_ok (TumblingWindowStrategy_new None (Some m) now)"
    and "tw_ok (TumblingWindowStrategy_new None None now)"
  using assms by (simp_all add: tw_ok_def TumblingWindowStrategy_new_def)

text \<open>
  C3, as the code has it. Let the window have a positive bucket duration \<open>w\<close>, a
  non-negative archive maximum, and an archive within that maximum. A push whose
  timestamp is at or after \<open>bucketStartTime + w\<close> returns; it archives the active bucket,
  with the percentiles of its entries, when that bucket is not empty, and archives
  nothing for an empty active bucket; it then archives one empty bucket with the all-zero
  bundle for every bucket duration wholly skipped between the old boundary and the
  bucket of the new entry. The buckets the push archives have contiguous time ranges; the
  archive retains the last \<open>maxArchivedBuckets\<close> of the old archive followed by them. The
  new active bucket starts where the last skipped bucket ends, its range contains the
  entry's timestamp, and it holds the entry alone. A push before the boundary archives
  nothing and appends the entry to the active bucket.
\<close>

theorem tumbling_push_archives:
  assumes "tw_ok s"
  shows "(timestamp e \<ge> tw_bucketStartTime s + tw_windowMs s \<longrightarrow>
          (\<exists>s'. TumblingWindowStrategy_push s e = Some s'
             \<and> tw_archivedBuckets s' =
                 keep_last (nat (tw_maxArchivedBuckets s))
                   (tw_archivedBuckets s
                    @ closed_bucket s (tw_bucketStartTime s + tw_windowMs s)
                    @ empty_buckets (tw_bucketStartTime s + tw_windowMs s) (tw_windowMs s)
                        (nat ((timestamp e - (tw_bucketStartTime s + tw_windowMs s))
                              div tw_windowMs s)))
             \<and> contiguous
                   (closed_bucket s (tw_bucketStartTime s + tw_windowMs s)
                    @ empty_buckets (tw_bucketStartTime s + tw_windowMs s) (tw_windowMs s)
                        (nat ((timestamp e - (tw_bucketStartTime s + tw_windowMs s))
                              div tw_windowMs s)))
             \<and> tw_bucketStartTime s' =
                 tw_bucketStartTime s + tw_windowMs s
                 + int (nat ((timestamp e - (tw_bucketStartTime s + tw_windowMs s))
                             div tw_windowMs s)) * tw_windowMs s
             \<and> tw_bucketStartTime s' \<le> timestamp e
             \<and> timestamp e < tw_bucketStartTime s' + tw_windowMs s'
             \<and> tw_currentBucket s' = [e]
             \<and> tw_ok s'))
       \<and> (timestamp e < tw_bucketStartTime s + tw_windowMs s \<longrightarrow>
            TumblingWindowStrategy_push s e =
              Some (s\<lparr>tw_totalPushed := tw_totalPushed s + 1,
                      tw_currentBucket := tw_currentBucket s @ [e]\<rparr>))"
proof (intro conjI impI)
  assume early: "timestamp e < tw_bucketStartTime s + tw_windowMs s"
  then show "TumblingWindowStrategy_push s e =
      Some (s\<lparr>tw_totalPushed := tw_totalPushed s + 1, tw_currentBucket := tw_currentBucket s @ [e]\<rparr>)"
    by (simp add: TumblingWindowStrategy_push_def Let_def)
next
  let ?w = "tw_windowMs s" and ?m = "nat (tw_maxArchivedBuckets s)"
  let ?end = "tw_bucketStartTime s + tw_windowMs s"
  let ?n = "nat ((timestamp e - ?end) div ?w)"
  let ?s1 = "s\<lparr>tw_totalPushed := tw_totalPushed s + 1\<rparr>"
  assume late: "timestamp e \<ge> ?end"
  from assms have w: "0 < ?w" and m: "0 \<le> tw_maxArchivedBuckets s" by (simp_all add: tw_ok_def)
  have ok1: "tw_ok ?s1" using assms by (simp add: tw_ok_def)
  from closeBucket_archives [OF ok1, of ?end] obtain s2 where
    s2: "closeBucket ?s1 ?end = Some s2"
    and a2: "tw_archivedBuckets s2 = keep_last ?m (tw_archivedBuckets s @ closed_bucket s ?end)"
    and f2: "tw_currentBucket s2 = []" "tw_bucketStartTime s2 = tw_bucketStartTime s"
      "tw_windowMs s2 = ?w" "tw_maxArchivedBuckets s2 = tw_maxArchivedBuckets s"
    by (auto simp: closed_bucket_def)
  let ?s2 = "s2\<lparr>tw_bucketStartTime := ?end\<rparr>"
  have n: "?n = nat ((timestamp e - tw_bucketStartTime ?s2) div tw_windowMs ?s2)"
    by (simp add: f2)
  from skip_windows_archives [of ?s2, OF _ _ n] w m obtain s3 where
    s3: "skip_windows ?s2 (timestamp e) = Some s3"
    and a3: "keep_last ?m (tw_archivedBuckets s3) =
             keep_last ?m (tw_archivedBuckets s2 @ empty_buckets ?end ?w ?n)"
    and l3: "0 < ?n \<longrightarrow> int (length (tw_archivedBuckets s3)) \<le> tw_maxArchivedBuckets s"
    and z3: "?n = 0 \<longrightarrow> tw_archivedBuckets s3 = tw_archivedBuckets s2"
    and f3: "tw_bucketStartTime s3 = ?end + int ?n * ?w" "tw_currentBucket s3 = []"
      "tw_windowMs s3 = ?w" "tw_maxArchivedBuckets s3 = tw_maxArchivedBuckets s"
    by (auto simp: f2)
  have len3: "int (length (tw_archivedBuckets s3)) \<le> tw_maxArchivedBuckets s"
  proof (cases "?n = 0")
    case True
    with z3 have "tw_archivedBuckets s3 = tw_archivedBuckets s2" by simp
    then show ?thesis unfolding a2 by (simp only: length_keep_last_int [OF m])
  next
    case False
    with l3 show ?thesis by simp
  qed
  then have "keep_last ?m (tw_archivedBuckets s3) = tw_archivedBuckets s3"
    by (intro keep_last_short) linarith
  then have arch: "tw_archivedBuckets s3 =
      keep_last ?m (tw_archivedBuckets s @ closed_bucket s ?end @ empty_buckets ?end ?w ?n)"
    using a3 unfolding a2 keep_last_append by simp
  have push: "TumblingWindowStrategy_push s e = Some (s3\<lparr>tw_currentBucket := [e]\<rparr>)"
    using late s2 s3 f3(2) by (simp add: TumblingWindowStrategy_push_def Let_def)
  have x: "0 \<le> timestamp e - ?end" using late by simp
  note r = window_contains [OF w x]
  show "\<exists>s'. TumblingWindowStrategy_push s e = Some s'
             \<and> tw_archivedBuckets s' =
                 keep_last ?m (tw_archivedBuckets s @ closed_bucket s ?end @ empty_buckets ?end ?w ?n)
             \<and> contiguous (closed_bucket s ?end @ empty_buckets ?end ?w ?n)
             \<and> tw_bucketStartTime s' = ?end + int ?n * ?w
             \<and> tw_bucketStartTime s' \<le> timestamp e
             \<and> timestamp e < tw_bucketStartTime s' + tw_windowMs s'
             \<and> tw_currentBucket s' = [e]
             \<and> tw_ok s'"
  proof (intro exI [of _ "s3\<lparr>tw_currentBucket := [e]\<rparr>"] conjI)
    show "TumblingWindowStrategy_push s e = Some (s3\<lparr>tw_currentBucket := [e]\<rparr>)" by (rule push)
    show "tw_archivedBuckets (s3\<lparr>tw_currentBucket := [e]\<rparr>) =
        keep_last ?m (tw_archivedBuckets s @ closed_bucket s ?end @ empty_buckets ?end ?w ?n)"
      using arch by simp
    show "contiguous (closed_bucket s ?end @ empty_buckets ?end ?w ?n)"
      by (rule contiguous_closed_then_empty)
    show "tw_bucketStartTime (s3\<lparr>tw_currentBucket := [e]\<rparr>) = ?end + int ?n * ?w"
      using f3(1) by simp
    show "tw_bucketStartTime (s3\<lparr>tw_currentBucket := [e]\<rparr>) \<le> timestamp e"
      using f3(1) r(1) by simp
    show "timestamp e < tw_bucketStartTime (s3\<lparr>tw_currentBucket := [e]\<rparr>)
            + tw_windowMs (s3\<lparr>tw_currentBucket := [e]\<rparr>)"
      using f3(1,3) r(2) by simp
    show "tw_currentBucket (s3\<lparr>tw_currentBucket := [e]\<rparr>) = [e]" by simp
    show "tw_ok (s3\<lparr>tw_currentBucket := [e]\<rparr>)"
      using w m len3 f3(3,4) by (simp add: tw_ok_def)
  qed
qed

theorem tumbling_push_archives_witness:
  "tw_ok tumbling10_one
   \<and> timestamp (sample ''A'' Latency 9 25) \<ge> tw_bucketStartTime tumbling10_one + tw_windowMs tumbling10_one
   \<and> TumblingWindowStrategy_push tumbling10 (sample ''A'' Latency 7 5) = Some tumbling10_one
   \<and> TumblingWindowStrategy_push tumbling10_one (sample ''A'' Latency 9 25) =
       Some \<lparr>tw_currentBucket = [sample ''A'' Latency 9 25], tw_bucketStartTime = 20,
             tw_windowMs = 10, tw_maxArchivedBuckets = 10,
             tw_archivedBuckets =
               [\<lparr>mb_entries = [sample ''A'' Latency 7 5], mb_startTime = 0, mb_endTime = 10,
                 mb_percentiles = \<lparr>pr_min = 7, pr_max = 7, p50 = 7, p95 = 7, p99 = 7,
                                   mean = 7, count = 1\<rparr>\<rparr>,
                empty_bucket 10 20],
             tw_totalPushed = 2, tw_totalEvicted = 0\<rparr>"
proof -
  have ok: "tw_ok tumbling10_one" by (simp add: tw_ok_def tumbling10_one_def)
  have first: "TumblingWindowStrategy_push tumbling10 (sample ''A'' Latency 7 5) = Some tumbling10_one"
    by (simp add: TumblingWindowStrategy_push_def tumbling10_def tumbling10_one_def
        TumblingWindowStrategy_new_def Let_def sample_def)
  have second: "TumblingWindowStrategy_push tumbling10_one (sample ''A'' Latency 9 25) =
       Some \<lparr>tw_currentBucket = [sample ''A'' Latency 9 25], tw_bucketStartTime = 20,
             tw_windowMs = 10, tw_maxArchivedBuckets = 10,
             tw_archivedBuckets =
               [\<lparr>mb_entries = [sample ''A'' Latency 7 5], mb_startTime = 0, mb_endTime = 10,
                 mb_percentiles = \<lparr>pr_min = 7, pr_max = 7, p50 = 7, p95 = 7, p99 = 7,
                                   mean = 7, count = 1\<rparr>\<rparr>,
                empty_bucket 10 20],
             tw_totalPushed = 2, tw_totalEvicted = 0\<rparr>"
    by (simp add: TumblingWindowStrategy_push_def tumbling10_one_def Let_def sample_def
        closeBucket_def archiveBucket_def skip_windows.simps empty_bucket_def
        computePercentiles_def percentile_def js_at_def zero_percentiles_def
        round_double_numeral)
  from tumbling_push_archives [OF ok, of "sample ''A'' Latency 9 25"] ok first second
  show ?thesis by (simp add: sample_def tumbling10_one_def)
qed

text \<open>
  C3 as stated fails when the active bucket is empty. A first push two bucket durations
  after the construction archives the skipped second duration and not the empty first
  one. After a flush at time 5, a push at time 27 archives the skipped range from 15 to
  25 and leaves the range from 5 to 15 out: the archived ranges are not contiguous.
\<close>

theorem tumbling_empty_active_bucket_not_archived:
  "TumblingWindowStrategy_push tumbling10 (sample ''A'' Latency 9 25) =
       Some \<lparr>tw_currentBucket = [sample ''A'' Latency 9 25], tw_bucketStartTime = 20,
             tw_windowMs = 10, tw_maxArchivedBuckets = 10,
             tw_archivedBuckets = [empty_bucket 10 20],
             tw_totalPushed = 1, tw_totalEvicted = 0\<rparr>
   \<and> map (\<lambda>b. (mb_startTime b, mb_endTime b))
        (tw_archivedBuckets (the (TumblingWindowStrategy_push
           (snd (the (flushCurrentBucket tumbling10_one 5))) (sample ''A'' Latency 9 27))))
      = [(0, 5), (15, 25)]
   \<and> \<not> contiguous (tw_archivedBuckets (the (TumblingWindowStrategy_push
           (snd (the (flushCurrentBucket tumbling10_one 5))) (sample ''A'' Latency 9 27))))"
  by (simp add: TumblingWindowStrategy_push_def tumbling10_def tumbling10_one_def Let_def
      sample_def TumblingWindowStrategy_new_def flushCurrentBucket_def
      closeBucket_def archiveBucket_def skip_windows.simps empty_bucket_def
      computePercentiles_def percentile_def js_at_def zero_percentiles_def
        round_double_numeral)

section \<open>Properties of the collector\<close>

lemma emit_unfold:
  "emit c entry =
     (Normal, c\<lparr>mc_totalEntries := mc_totalEntries c + 1,
                mc_strategy := strategy_push (mc_strategy c) entry\<rparr>)"
  by (simp add: emit_def Let_def split: option.splits completion.splits)

text \<open>
  C6. For a collector over any strategy, with any callback and any switches: a stage
  start for \<open>stage\<close> at time \<open>t\<close> followed by a stage end for \<open>stage\<close> at time \<open>t'\<close>
  without a duration pushes to the strategy the invocation entry of the start and then
  one latency entry for \<open>stage\<close> of value \<open>t' - t\<close> (50 for the times 100 and 150), and
  nothing else; both hooks return, and afterwards the map of pending start times has no
  entry for \<open>stage\<close>.
\<close>

theorem stage_end_derives_latency:
  assumes "ctx_stageName ev = stage" "ctx_timestamp ev = t"
    and "ctx_stageName ev' = stage" "ctx_timestamp ev' = t'" "duration ev' = None"
  shows "fst (onStageStart c ev) = Normal
       \<and> fst (onStageEnd (snd (onStageStart c ev)) ev') = Normal
       \<and> st_state (mc_strategy (snd (onStageEnd (snd (onStageStart c ev)) ev'))) =
           st_push (mc_strategy c)
             (st_push (mc_strategy c) (st_state (mc_strategy c))
                \<lparr>stageName = stage, metric = StageInvocation, val = 1, timestamp = t,
                 metadata = None\<rparr>)
             \<lparr>stageName = stage, metric = Latency, val = of_int (t' - t), timestamp = t',
              metadata = None\<rparr>
       \<and> mc_totalEntries (snd (onStageEnd (snd (onStageStart c ev)) ev')) = mc_totalEntries c + 2
       \<and> mc_stageStartTimes (snd (onStageEnd (snd (onStageStart c ev)) ev')) stage = None"
  using assms
  by (simp add: onStageStart_def onStageEnd_def emit_unfold Let_def strategy_push_def)

theorem stage_end_derives_latency_witness:
  "fst (onStageStart recording_collector (stage_event ''A'' 100 None)) = Normal
   \<and> fst (onStageEnd (snd (onStageStart recording_collector (stage_event ''A'' 100 None)))
           (stage_event ''A'' 150 None)) = Normal
   \<and> st_state (mc_strategy (snd (onStageEnd
         (snd (onStageStart recording_collector (stage_event ''A'' 100 None)))
         (stage_event ''A'' 150 None))))
      = [sample ''A'' StageInvocation 1 100, sample ''A'' Latency 50 150]
   \<and> filter (\<lambda>e. metric e = Latency)
        (st_state (mc_strategy (snd (onStageEnd
           (snd (onStageStart recording_collector (stage_event ''A'' 100 None)))
           (stage_event ''A'' 150 None)))))
      = [sample ''A'' Latency 50 150]
   \<and> mc_stageStartTimes (snd (onStageEnd
         (snd (onStageStart recording_collector (stage_event ''A'' 100 None)))
         (stage_event ''A'' 150 None))) ''A'' = None"
  using stage_end_derives_latency [of "stage_event ''A'' 100 None" "''A''" 100
      "stage_event ''A'' 150 None" 150 recording_collector]
  by (simp add: stage_event_def recording_collector_def recording_strategy_def
      MetricCollector_new_def sample_def)

text \<open>
  C9. When the collector has a callback and the callback throws on an entry, \<open>emit\<close> of
  that entry returns to its caller, and the state it leaves has the entry pushed to the
  strategy and counted. Every hook returns, whatever the callback does.
\<close>

theorem callback_error_is_swallowed:
  assumes "mc_onMetricEntry c = Some callback" "callback entry = Throw"
  shows "emit c entry =
           (Normal, c\<lparr>mc_totalEntries := mc_totalEntries c + 1,
                      mc_strategy := (mc_strategy c)
                        \<lparr>st_state := st_push (mc_strategy c) (st_state (mc_strategy c)) entry\<rparr>\<rparr>)
       \<and> fst (onStageStart c stage_ev) = Normal
       \<and> fst (onStageEnd c stage_ev) = Normal
       \<and> fst (onError c error_ev) = Normal
       \<and> fst (onRead c read_ev) = Normal
       \<and> fst (onWrite c write_ev) = Normal
       \<and> fst (onCommit c commit_ev) = Normal"
  by (simp add: emit_unfold strategy_push_def onStageStart_def onStageEnd_def onError_def
      onRead_def onWrite_def onCommit_def Let_def split: option.splits)

theorem callback_error_is_swallowed_witness:
  "mc_onMetricEntry recording_collector = Some throwing_callback
   \<and> throwing_callback (sample ''A'' ErrorCount 1 7) = Throw
   \<and> fst (emit recording_collector (sample ''A'' ErrorCount 1 7)) = Normal
   \<and> st_state (mc_strategy (snd (emit recording_collector (sample ''A'' ErrorCount 1 7))))
      = [sample ''A'' ErrorCount 1 7]
   \<and> mc_totalEntries (snd (emit recording_collector (sample ''A'' ErrorCount 1 7))) = 1"
proof -
  have cb: "mc_onMetricEntry recording_collector = Some throwing_callback"
    by (simp add: recording_collector_def MetricCollector_new_def)
  have throws: "throwing_callback (sample ''A'' ErrorCount 1 7) = Throw"
    by (simp add: throwing_callback_def)
  from callback_error_is_swallowed [OF cb throws, THEN conjunct1] cb throws
  show ?thesis
    by (simp add: recording_collector_def recording_strategy_def MetricCollector_new_def)
qed

section \<open>Repeated aggregate queries\<close>

lemma evictStale_idem: "evictStale (evictStale s r now) r now = evictStale s r now"
  by (simp add: evictStale_unfold)

lemma evictStale_nothing_stale:
  assumes "\<forall>e \<in> set (sw_entries s). timestamp e \<ge> now - sw_windowMs s"
  shows "evictStale s None now = s"
proof -
  have "filter (\<lambda>e. timestamp e \<ge> now - sw_windowMs s) (sw_entries s) = sw_entries s"
    using assms by (simp add: filter_id_conv)
  then show ?thesis by (simp add: evictStale_unfold)
qed

lemma those_length: "those xs = Some ys \<Longrightarrow> length ys = length xs"
  by (induction xs arbitrary: ys) (auto split: option.splits)

lemma ring_result_clock:
  assumes "RingBufferStrategy_getEntries r \<noteq> [] \<or> now = now'"
  shows "map_sum id modulo_computedAt (RingBufferStrategy_getMetricResult r now)
       = map_sum id modulo_computedAt (RingBufferStrategy_getMetricResult r now')"
proof (cases "those (RingBufferStrategy_getEntries r)")
  case None
  then show ?thesis by (simp add: RingBufferStrategy_getMetricResult_def)
next
  case (Some es)
  from those_length [OF Some] assms have "es \<noteq> [] \<or> now = now'" by auto
  then show ?thesis
    using Some by (auto simp: RingBufferStrategy_getMetricResult_def modulo_computedAt_def)
qed

text \<open>
  C7, as the code has it. Two aggregate queries with no push in between agree on every
  field but \<open>computedAt\<close>: for the tumbling window whatever the clock reads at the two
  queries; for the ring buffer when it retains an entry, or when the clock reads the
  same at both; for the sliding window when the clock reads the same at both (all fields
  agree then). When the clock has moved on, the two results of the sliding window still
  agree on every field but \<open>windowInfo\<close> and \<open>computedAt\<close>, and on the entry count,
  provided no entry retained at the first query is stale at the second.
\<close>

theorem aggregate_twice:
  "modulo_computedAt (TumblingWindowStrategy_getMetricResult t now)
     = modulo_computedAt (TumblingWindowStrategy_getMetricResult t now')
   \<and> (RingBufferStrategy_getEntries r \<noteq> [] \<or> now = now' \<longrightarrow>
        map_sum id modulo_computedAt (RingBufferStrategy_getMetricResult r now)
        = map_sum id modulo_computedAt (RingBufferStrategy_getMetricResult r now'))
   \<and> fst (SlidingWindowStrategy_getMetricResult
            (snd (SlidingWindowStrategy_getMetricResult w now)) now)
      = fst (SlidingWindowStrategy_getMetricResult w now)
   \<and> ((\<forall>e \<in> set (sw_entries (snd (SlidingWindowStrategy_getMetricResult w now))).
          timestamp e \<ge> now' - sw_windowMs w) \<longrightarrow>
        (fst (SlidingWindowStrategy_getMetricResult
               (snd (SlidingWindowStrategy_getMetricResult w now)) now'))
          \<lparr>windowInfo := windowInfo (fst (SlidingWindowStrategy_getMetricResult w now)),
           computedAt := now\<rparr>
        = fst (SlidingWindowStrategy_getMetricResult w now)
        \<and> entryCount (windowInfo (fst (SlidingWindowStrategy_getMetricResult
               (snd (SlidingWindowStrategy_getMetricResult w now)) now')))
          = entryCount (windowInfo (fst (SlidingWindowStrategy_getMetricResult w now))))"
proof (intro conjI impI)
  show "modulo_computedAt (TumblingWindowStrategy_getMetricResult t now)
     = modulo_computedAt (TumblingWindowStrategy_getMetricResult t now')"
    by (simp add: TumblingWindowStrategy_getMetricResult_def modulo_computedAt_def Let_def)
next
  assume "RingBufferStrategy_getEntries r \<noteq> [] \<or> now = now'"
  then show "map_sum id modulo_computedAt (RingBufferStrategy_getMetricResult r now)
        = map_sum id modulo_computedAt (RingBufferStrategy_getMetricResult r now')"
    by (rule ring_result_clock)
next
  show "fst (SlidingWindowStrategy_getMetricResult
            (snd (SlidingWindowStrategy_getMetricResult w now)) now)
      = fst (SlidingWindowStrategy_getMetricResult w now)"
    by (simp add: SlidingWindowStrategy_getMetricResult_def Let_def evictStale_idem)
next
  let ?w1 = "snd (SlidingWindowStrategy_getMetricResult w now)"
  assume fresh: "\<forall>e \<in> set (sw_entries ?w1). timestamp e \<ge> now' - sw_windowMs w"
  have w1: "?w1 = evictStale w None now"
    by (simp add: SlidingWindowStrategy_getMetricResult_def Let_def)
  have "evictStale ?w1 None now' = ?w1"
    using fresh by (intro evictStale_nothing_stale) (simp add: w1)
  then have same: "evictStale (evictStale w None now) None now' = evictStale w None now"
    by (simp add: w1)
  show "(fst (SlidingWindowStrategy_getMetricResult ?w1 now'))
          \<lparr>windowInfo := windowInfo (fst (SlidingWindowStrategy_getMetricResult w now)),
           computedAt := now\<rparr>
        = fst (SlidingWindowStrategy_getMetricResult w now)"
    by (simp add: SlidingWindowStrategy_getMetricResult_def Let_def same)
  show "entryCount (windowInfo (fst (SlidingWindowStrategy_getMetricResult ?w1 now')))
          = entryCount (windowInfo (fst (SlidingWindowStrategy_getMetricResult w now)))"
    by (simp add: SlidingWindowStrategy_getMetricResult_def Let_def same)
qed

theorem aggregate_twice_witness:
  "RingBufferStrategy_getEntries (foldl RingBufferStrategy_push ring3 four_latencies) \<noteq> []
   \<and> map_sum id modulo_computedAt
       (RingBufferStrategy_getMetricResult (foldl RingBufferStrategy_push ring3 four_latencies) 5)
     = map_sum id modulo_computedAt
       (RingBufferStrategy_getMetricResult (foldl RingBufferStrategy_push ring3 four_latencies) 99)
   \<and> latencyPercentiles (projr
       (RingBufferStrategy_getMetricResult (foldl RingBufferStrategy_push ring3 four_latencies) 99))
     = \<lparr>pr_min = 20, pr_max = 40, p50 = 30, p95 = 39, p99 = 5601352036542055 / 140737488355328,
        mean = 30, count = 3\<rparr>
   \<and> entryCount (windowInfo (fst (SlidingWindowStrategy_getMetricResult
        (snd (SlidingWindowStrategy_getMetricResult sliding10_one 5)) 8))) = 1"
proof -
  have entries: "RingBufferStrategy_getEntries (foldl RingBufferStrategy_push ring3 four_latencies)
      = [Some (sample ''A'' Latency 20 2), Some (sample ''A'' Latency 30 3),
         Some (sample ''A'' Latency 40 4)]"
    by (simp add: four_latencies_def ring3_def sample_def RingBufferStrategy_push_def
        RingBufferStrategy_getEntries_def js_store_def js_slot_def js_at_def Let_def upt_conv_Cons)
  have stats: "latencyPercentiles (projr
       (RingBufferStrategy_getMetricResult (foldl RingBufferStrategy_push ring3 four_latencies) 99))
     = \<lparr>pr_min = 20, pr_max = 40, p50 = 30, p95 = 39, p99 = 5601352036542055 / 140737488355328,
        mean = 30, count = 3\<rparr>"
    by (simp add: RingBufferStrategy_getMetricResult_def entries sample_def
        computePercentiles_def percentile_20_30_40 round_double_numeral)
  have fresh: "\<forall>e \<in> set (sw_entries (snd (SlidingWindowStrategy_getMetricResult sliding10_one 5))).
      timestamp e \<ge> 8 - sw_windowMs sliding10_one"
    by (simp add: sliding10_one_def SlidingWindowStrategy_getMetricResult_def Let_def
        SlidingWindowStrategy_push_def SlidingWindowStrategy_new_def evictStale_def sample_def)
  have count: "entryCount (windowInfo (fst (SlidingWindowStrategy_getMetricResult sliding10_one 5))) = 1"
    by (simp add: sliding10_one_def SlidingWindowStrategy_getMetricResult_def Let_def
        SlidingWindowStrategy_push_def SlidingWindowStrategy_new_def evictStale_def sample_def)
  from aggregate_twice [of _ _ _ "foldl RingBufferStrategy_push ring3 four_latencies" sliding10_one,
      where now = 5 and now' = 99]
  have ring: "map_sum id modulo_computedAt
       (RingBufferStrategy_getMetricResult (foldl RingBufferStrategy_push ring3 four_latencies) 5)
     = map_sum id modulo_computedAt
       (RingBufferStrategy_getMetricResult (foldl RingBufferStrategy_push ring3 four_latencies) 99)"
    by (simp add: entries)
  from aggregate_twice [where w = sliding10_one and now = 5 and now' = 8] fresh count
  have sliding: "entryCount (windowInfo (fst (SlidingWindowStrategy_getMetricResult
        (snd (SlidingWindowStrategy_getMetricResult sliding10_one 5)) 8))) = 1"
    by simp
  from entries stats ring sliding show ?thesis by simp
qed

text \<open>
  C7 as stated fails when the clock moves between the two queries. The empty ring buffer
  reports the clock as the start and the end of its window. The sliding window evicts at
  the second query the entry that became stale, and its window follows the clock.
\<close>

theorem aggregate_follows_clock:
  "map_sum id modulo_computedAt (RingBufferStrategy_getMetricResult ring3 1)
     \<noteq> map_sum id modulo_computedAt (RingBufferStrategy_getMetricResult ring3 2)
   \<and> wi_startTime (windowInfo (projr (RingBufferStrategy_getMetricResult ring3 1))) = 1
   \<and> wi_startTime (windowInfo (projr (RingBufferStrategy_getMetricResult ring3 2))) = 2
   \<and> modulo_computedAt (fst (SlidingWindowStrategy_getMetricResult sliding10_one 5))
     \<noteq> modulo_computedAt (fst (SlidingWindowStrategy_getMetricResult
           (snd (SlidingWindowStrategy_getMetricResult sliding10_one 5)) 20))
   \<and> count (latencyPercentiles (fst (SlidingWindowStrategy_getMetricResult sliding10_one 5))) = 1
   \<and> count (latencyPercentiles (fst (SlidingWindowStrategy_getMetricResult
           (snd (SlidingWindowStrategy_getMetricResult sliding10_one 5)) 20))) = 0"
proof -
  have ring: "RingBufferStrategy_getMetricResult ring3 now =
      Inr \<lparr>latencyPercentiles = zero_percentiles, stagePercentiles = [], totalErrors = 0,
           stageErrors = [], totalInvocations = 0,
           windowInfo = \<lparr>wi_type = RingBuffer, wi_startTime = now, wi_endTime = now,
                         entryCount = 0\<rparr>,
           computedAt = now\<rparr>" for now
    by (simp add: RingBufferStrategy_getMetricResult_def RingBufferStrategy_getEntries_def
        ring3_def computePercentiles_def computeStagePercentiles_def computeStageErrors_def)
  have first: "SlidingWindowStrategy_getMetricResult sliding10_one 5 =
      (\<lparr>latencyPercentiles = \<lparr>pr_min = 5, pr_max = 5, p50 = 5, p95 = 5, p99 = 5, mean = 5,
                               count = 1\<rparr>,
        stagePercentiles = [(''A'', \<lparr>pr_min = 5, pr_max = 5, p50 = 5, p95 = 5, p99 = 5,
                                     mean = 5, count = 1\<rparr>)],
        totalErrors = 0, stageErrors = [], totalInvocations = 0,
        windowInfo = \<lparr>wi_type = Sliding, wi_startTime = -5, wi_endTime = 5, entryCount = 1\<rparr>,
        computedAt = 5\<rparr>, sliding10_one)"
    by (simp add: sliding10_one_def SlidingWindowStrategy_getMetricResult_def Let_def
        SlidingWindowStrategy_push_def SlidingWindowStrategy_new_def evictStale_def sample_def
        computePercentiles_def computeStagePercentiles_def computeStageErrors_def
        percentile_def js_at_def round_double_numeral)
  have second: "fst (SlidingWindowStrategy_getMetricResult sliding10_one 20) =
      \<lparr>latencyPercentiles = zero_percentiles, stagePercentiles = [], totalErrors = 0,
       stageErrors = [], totalInvocations = 0,
       windowInfo = \<lparr>wi_type = Sliding, wi_startTime = 10, wi_endTime = 20, entryCount = 0\<rparr>,
       computedAt = 20\<rparr>"
    by (simp add: sliding10_one_def SlidingWindowStrategy_getMetricResult_def Let_def
        SlidingWindowStrategy_push_def SlidingWindowStrategy_new_def evictStale_def sample_def
        computePercentiles_def computeStagePercentiles_def computeStageErrors_def)
  show ?thesis
    by (simp add: ring first second modulo_computedAt_def zero_percentiles_def)
qed

end
